theory Spec2Isabelle
  imports Main "HOL-Library.Sublist"
begin

section \<open>Python values used by blob_downloader.py\<close>

text \<open>
  The script calls four parts of the CPython standard library: \<^verbatim>\<open>str\<close> methods and
  \<^verbatim>\<open>int()\<close>, \<^verbatim>\<open>datetime\<close>, \<^verbatim>\<open>email.utils.parsedate_to_datetime\<close> and
  \<^verbatim>\<open>urllib.parse.urlparse\<close>. They are modelled here after CPython 3.11 (the script needs
  3.10 or later, for its \<^verbatim>\<open>date | None\<close> annotation). A Python \<^verbatim>\<open>str\<close> is a \<^typ>\<open>string\<close>
  whose characters are code points below 256; a Python \<^verbatim>\<open>int\<close> is an \<^typ>\<open>int\<close>.

  An exception is a value of type \<open>error\<close>. \<open>ValueError (Some m)\<close> is a \<^verbatim>\<open>ValueError\<close> that
  the script itself raises, with message \<open>m\<close>; \<open>ValueError None\<close> is a \<^verbatim>\<open>ValueError\<close> raised
  inside a library call, whose message text is not modelled. \<open>HTTPError\<close> stands for every
  exception of \<^verbatim>\<open>requests\<close> (a failed connection, or \<^verbatim>\<open>raise_for_status\<close>), and
  \<open>ParseError\<close> for \<^verbatim>\<open>xml.etree.ElementTree.ParseError\<close>.
\<close>

datatype error =
    ValueError "string option"
  | OverflowError
  | TypeError
  | HTTPError
  | ParseError

subsection \<open>Strings\<close>

definition isspace :: "char \<Rightarrow> bool" where
  \<comment> \<open>\<^verbatim>\<open>str.isspace\<close>, the separators of \<^verbatim>\<open>str.split()\<close>\<close>
  "isspace c \<longleftrightarrow> c \<in> set [CHR 0x09, CHR 0x0A, CHR 0x0B, CHR 0x0C, CHR 0x0D,
     CHR 0x1C, CHR 0x1D, CHR 0x1E, CHR 0x1F, CHR 0x20, CHR 0x85, CHR 0xA0]"

definition is_decimal :: "char \<Rightarrow> bool" where
  "is_decimal c \<longleftrightarrow> c \<in> set ''0123456789''"

definition isdigit :: "char \<Rightarrow> bool" where
  \<comment> \<open>\<^verbatim>\<open>str.isdigit\<close>: the decimal digits and the superscripts two, three and one\<close>
  "isdigit c \<longleftrightarrow> is_decimal c \<or> c \<in> set [CHR 0xB2, CHR 0xB3, CHR 0xB9]"

definition lower_char :: "char \<Rightarrow> char" where
  "lower_char c =
     (case map_of (zip ''ABCDEFGHIJKLMNOPQRSTUVWXYZ'' ''abcdefghijklmnopqrstuvwxyz'') c of
        Some d \<Rightarrow> d | None \<Rightarrow> c)"

definition upper_char :: "char \<Rightarrow> char" where
  "upper_char c =
     (case map_of (zip ''abcdefghijklmnopqrstuvwxyz'' ''ABCDEFGHIJKLMNOPQRSTUVWXYZ'') c of
        Some d \<Rightarrow> d | None \<Rightarrow> c)"

text \<open>
  \<^verbatim>\<open>str.lower\<close> and \<^verbatim>\<open>str.upper\<close> are modelled on the ASCII letters only. The script's
  library calls compare their results with ASCII tables or pass them to \<^verbatim>\<open>int()\<close>; no
  character from 128 to 255 is mapped to an ASCII letter by \<^verbatim>\<open>lower\<close>, and the only one mapped
  to ASCII letters by \<^verbatim>\<open>upper\<close> is the sharp s (to \<^verbatim>\<open>SS\<close>, which occurs in no table entry).
\<close>

definition lower :: "string \<Rightarrow> string" where
  "lower s = map lower_char s"

definition upper :: "string \<Rightarrow> string" where
  "upper s = map upper_char s"

fun split_ws_from :: "string \<Rightarrow> string \<Rightarrow> string list" where
  "split_ws_from cur [] = (if cur = [] then [] else [cur])"
| "split_ws_from cur (c # cs) =
     (if isspace c then (if cur = [] then split_ws_from [] cs else cur # split_ws_from [] cs)
      else split_ws_from (cur @ [c]) cs)"

definition split_ws :: "string \<Rightarrow> string list" where
  \<comment> \<open>\<^verbatim>\<open>s.split()\<close>: the maximal runs of non-whitespace characters\<close>
  "split_ws s = split_ws_from [] s"

fun split_on :: "char \<Rightarrow> string \<Rightarrow> string list" where
  \<comment> \<open>\<^verbatim>\<open>s.split(sep)\<close> for a one-character separator\<close>
  "split_on sep [] = [[]]"
| "split_on sep (c # cs) =
     (if c = sep then [] # split_on sep cs
      else (case split_on sep cs of [] \<Rightarrow> [[c]] | x # xs \<Rightarrow> (c # x) # xs))"

fun find_char :: "char \<Rightarrow> string \<Rightarrow> nat option" where
  \<comment> \<open>\<^verbatim>\<open>s.find(c)\<close>, with \<open>None\<close> for -1\<close>
  "find_char c [] = None"
| "find_char c (x # xs) =
     (if x = c then Some 0 else map_option Suc (find_char c xs))"

definition rfind_char :: "char \<Rightarrow> string \<Rightarrow> nat option" where
  \<comment> \<open>\<^verbatim>\<open>s.rfind(c)\<close>, with \<open>None\<close> for -1\<close>
  "rfind_char c s =
     (case find_char c (rev s) of None \<Rightarrow> None | Some i \<Rightarrow> Some (length s - 1 - i))"

subsection \<open>\<^verbatim>\<open>int()\<close> of a string\<close>

definition int_space :: "char \<Rightarrow> bool" where
  \<comment> \<open>the whitespace that \<^verbatim>\<open>int()\<close> skips around a literal\<close>
  "int_space c \<longleftrightarrow> c \<in> set [CHR 0x09, CHR 0x0A, CHR 0x0B, CHR 0x0C, CHR 0x0D,
     CHR 0x20, CHR 0x85, CHR 0xA0]"

definition digit_val :: "char \<Rightarrow> int" where
  "digit_val c = (case find_char c ''0123456789'' of Some i \<Rightarrow> int i | None \<Rightarrow> 0)"

fun digits_ok :: "char \<Rightarrow> string \<Rightarrow> bool" where
  \<comment> \<open>digits with single underscores between them; the first argument is the previous character\<close>
  "digits_ok prev [] = is_decimal prev"
| "digits_ok prev (c # cs) =
     (if c = CHR ''_'' then is_decimal prev \<and> digits_ok c cs
      else is_decimal c \<and> digits_ok c cs)"

definition int_max_str_digits :: nat where
  "int_max_str_digits = 4300"

definition py_int :: "string \<Rightarrow> int option" where
  \<comment> \<open>\<^verbatim>\<open>int(s)\<close>; \<open>None\<close> where Python raises \<^verbatim>\<open>ValueError\<close>\<close>
  "py_int s =
     (let t = rev (dropWhile int_space (rev (dropWhile int_space s)));
          neg = (t \<noteq> [] \<and> hd t = CHR ''-'');
          body = (if t \<noteq> [] \<and> (hd t = CHR ''-'' \<or> hd t = CHR ''+'') then tl t else t);
          ds = filter is_decimal body
      in if body \<noteq> [] \<and> digits_ok CHR ''_'' body \<and> length ds \<le> int_max_str_digits
         then Some ((if neg then - 1 else 1) * foldl (\<lambda>a c. 10 * a + digit_val c) 0 ds)
         else None)"

subsection \<open>Calendar dates: \<^verbatim>\<open>datetime.date\<close> and \<^verbatim>\<open>datetime.datetime\<close>\<close>

datatype date = Date (year: int) (month: int) (day: int)

text \<open>
  A \<^verbatim>\<open>datetime\<close> with microsecond 0. \<open>tzinfo\<close> is \<open>None\<close> for a naive value and \<open>Some s\<close>
  for \<^verbatim>\<open>timezone(timedelta(seconds=s))\<close>; \<^verbatim>\<open>timezone.utc\<close> is \<open>Some 0\<close>.
\<close>

datatype datetime =
  Datetime (date_part: date) (hour: int) (minute: int) (second: int) (tzinfo: "int option")

definition date_le :: "date \<Rightarrow> date \<Rightarrow> bool" where
  \<comment> \<open>\<^verbatim>\<open>a <= b\<close> on dates: the order of the triples (year, month, day)\<close>
  "date_le a b \<longleftrightarrow>
     year a < year b \<or>
     (year a = year b \<and> (month a < month b \<or> (month a = month b \<and> day a \<le> day b)))"

definition date_lt :: "date \<Rightarrow> date \<Rightarrow> bool" where
  "date_lt a b \<longleftrightarrow>
     year a < year b \<or>
     (year a = year b \<and> (month a < month b \<or> (month a = month b \<and> day a < day b)))"

definition is_leap :: "int \<Rightarrow> bool" where
  "is_leap y \<longleftrightarrow> y mod 4 = 0 \<and> (y mod 100 \<noteq> 0 \<or> y mod 400 = 0)"

definition days_before_year :: "int \<Rightarrow> int" where
  "days_before_year y0 = (let y = y0 - 1 in y * 365 + y div 4 - y div 100 + y div 400)"

definition DAYS_IN_MONTH :: "int list" where
  "DAYS_IN_MONTH = [- 1, 31, 28, 31, 30, 31, 30, 31, 31, 30, 31, 30, 31]"

definition DAYS_BEFORE_MONTH :: "int list" where
  "DAYS_BEFORE_MONTH = [- 1, 0, 31, 59, 90, 120, 151, 181, 212, 243, 273, 304, 334]"

definition days_in_month :: "int \<Rightarrow> int \<Rightarrow> int" where
  "days_in_month y m = (if m = 2 \<and> is_leap y then 29 else DAYS_IN_MONTH ! nat m)"

definition days_before_month :: "int \<Rightarrow> int \<Rightarrow> int" where
  "days_before_month y m = DAYS_BEFORE_MONTH ! nat m + (if m > 2 \<and> is_leap y then 1 else 0)"

definition ymd2ord :: "int \<Rightarrow> int \<Rightarrow> int \<Rightarrow> int" where
  "ymd2ord y m d = days_before_year y + days_before_month y m + d"

definition toordinal :: "date \<Rightarrow> int" where
  "toordinal d = ymd2ord (year d) (month d) (day d)"

definition DI400Y :: int where "DI400Y = 146097"
definition DI100Y :: int where "DI100Y = 36524"
definition DI4Y :: int where "DI4Y = 1461"
definition MAXORDINAL :: int where "MAXORDINAL = 3652059"

definition ord2ymd :: "int \<Rightarrow> date" where
  \<comment> \<open>\<^verbatim>\<open>date.fromordinal\<close>; the month index stays within 1..12 for every ordinal\<close>
  "ord2ymd n0 =
     (let n = n0 - 1;
          n400 = n div DI400Y; n = n mod DI400Y;
          y = n400 * 400 + 1;
          n100 = n div DI100Y; n = n mod DI100Y;
          n4 = n div DI4Y; n = n mod DI4Y;
          n1 = n div 365; n = n mod 365;
          y = y + n100 * 100 + n4 * 4 + n1
      in if n1 = 4 \<or> n100 = 4 then Date (y - 1) 12 31
         else
           let leapyear = (n1 = 3 \<and> (n4 \<noteq> 24 \<or> n100 = 3));
               m = (n + 50) div 32;
               preceding = DAYS_BEFORE_MONTH ! nat m + (if m > 2 \<and> leapyear then 1 else 0);
               m' = (if preceding > n then m - 1 else m);
               preceding' =
                 (if preceding > n
                  then preceding - (DAYS_IN_MONTH ! nat m' + (if m' = 2 \<and> leapyear then 1 else 0))
                  else preceding)
           in Date y m' (n - preceding' + 1))"

definition c_int_ok :: "int \<Rightarrow> bool" where
  \<comment> \<open>the argument fits the C \<^verbatim>\<open>int\<close> that the constructors of \<^verbatim>\<open>datetime\<close> convert it to\<close>
  "c_int_ok x \<longleftrightarrow> - 2147483648 \<le> x \<and> x \<le> 2147483647"

definition new_date :: "int \<Rightarrow> int \<Rightarrow> int \<Rightarrow> error + date" where
  \<comment> \<open>\<^verbatim>\<open>date(y, m, d)\<close>\<close>
  "new_date y m d =
     (if \<not> (c_int_ok y \<and> c_int_ok m \<and> c_int_ok d) then Inl OverflowError
      else if y < 1 \<or> 9999 < y then Inl (ValueError None)
      else if m < 1 \<or> 12 < m then Inl (ValueError None)
      else if d < 1 \<or> days_in_month y m < d then Inl (ValueError None)
      else Inr (Date y m d))"

definition new_datetime ::
  "int \<Rightarrow> int \<Rightarrow> int \<Rightarrow> int \<Rightarrow> int \<Rightarrow> int \<Rightarrow> int option \<Rightarrow> error + datetime" where
  \<comment> \<open>\<^verbatim>\<open>datetime(y, m, d, hh, mi, ss, tzinfo=tz)\<close>\<close>
  "new_datetime y m d hh mi ss tz =
     (if \<not> (c_int_ok y \<and> c_int_ok m \<and> c_int_ok d \<and> c_int_ok hh \<and> c_int_ok mi \<and> c_int_ok ss)
      then Inl OverflowError
      else if y < 1 \<or> 9999 < y then Inl (ValueError None)
      else if m < 1 \<or> 12 < m then Inl (ValueError None)
      else if d < 1 \<or> days_in_month y m < d then Inl (ValueError None)
      else if hh < 0 \<or> 23 < hh then Inl (ValueError None)
      else if mi < 0 \<or> 59 < mi then Inl (ValueError None)
      else if ss < 0 \<or> 59 < ss then Inl (ValueError None)
      else Inr (Datetime (Date y m d) hh mi ss tz))"

definition new_timezone :: "int \<Rightarrow> error + int" where
  \<comment> \<open>\<^verbatim>\<open>timezone(timedelta(seconds=s))\<close>: the days of a \<^verbatim>\<open>timedelta\<close> are at most 999999999 in
      magnitude, and the offset of a \<^verbatim>\<open>timezone\<close> is strictly within 24 hours\<close>
  "new_timezone s =
     (if s div 86400 < - 999999999 \<or> 999999999 < s div 86400 then Inl OverflowError
      else if s \<le> - 86400 \<or> 86400 \<le> s then Inl (ValueError None)
      else Inr s)"

definition astimezone_utc :: "datetime \<Rightarrow> int \<Rightarrow> error + datetime" where
  \<comment> \<open>\<^verbatim>\<open>dt.astimezone(timezone.utc)\<close> for an aware \<open>dt\<close> whose offset from UTC is \<open>off\<close> seconds:
      \<open>dt\<close> itself when its zone is UTC, else \<^verbatim>\<open>dt - offset\<close> with the zone replaced\<close>
  "astimezone_utc dt off =
     (if off = 0 then Inr (Datetime (date_part dt) (hour dt) (minute dt) (second dt) (Some 0))
      else
        let total = toordinal (date_part dt) * 86400
                    + hour dt * 3600 + minute dt * 60 + second dt - off;
            days = total div 86400;
            secs = total mod 86400
        in if 0 < days \<and> days \<le> MAXORDINAL
           then Inr (Datetime (ord2ymd days) (secs div 3600) (secs mod 3600 div 60)
                       (secs mod 60) (Some 0))
           else Inl OverflowError)"

subsection \<open>\<^verbatim>\<open>email.utils.parsedate_to_datetime\<close>\<close>

definition monthnames :: "string list" where
  "monthnames = [''jan'', ''feb'', ''mar'', ''apr'', ''may'', ''jun'', ''jul'',
     ''aug'', ''sep'', ''oct'', ''nov'', ''dec'',
     ''january'', ''february'', ''march'', ''april'', ''may'', ''june'', ''july'',
     ''august'', ''september'', ''october'', ''november'', ''december'']"

definition daynames :: "string list" where
  "daynames = [''mon'', ''tue'', ''wed'', ''thu'', ''fri'', ''sat'', ''sun'']"

definition timezones :: "(string \<times> int) list" where
  "timezones = [(''UT'', 0), (''UTC'', 0), (''GMT'', 0), (''Z'', 0),
     (''AST'', - 400), (''ADT'', - 300), (''EST'', - 500), (''EDT'', - 400),
     (''CST'', - 600), (''CDT'', - 500), (''MST'', - 700), (''MDT'', - 600),
     (''PST'', - 800), (''PDT'', - 700)]"

fun index_of :: "string list \<Rightarrow> string \<Rightarrow> nat" where
  \<comment> \<open>\<^verbatim>\<open>xs.index(x)\<close> for an \<open>x\<close> that occurs in \<open>xs\<close>\<close>
  "index_of [] x = 0"
| "index_of (y # ys) x = (if x = y then 0 else Suc (index_of ys x))"

definition ends_with_comma :: "string \<Rightarrow> bool" where
  "ends_with_comma s \<longleftrightarrow> s \<noteq> [] \<and> last s = CHR '',''"

definition pd_tokens :: "string list \<Rightarrow> string list" where
  \<comment> \<open>the first part of \<^verbatim>\<open>_parsedate_tz\<close>: from the words of the input (at least one) to the
      list that holds day, month, year, time and zone\<close>
  "pd_tokens data0 =
     (let data = (if ends_with_comma (hd data0) \<or> lower (hd data0) \<in> set daynames then tl data0
                  else (case rfind_char CHR '','' (hd data0) of
                          None \<Rightarrow> data0
                        | Some i \<Rightarrow> drop (i + 1) (hd data0) # tl data0));
          data = (if length data = 3
                  then (let stuff = split_on CHR ''-'' (hd data)
                        in if length stuff = 3 then stuff @ tl data else data)
                  else data)
      in if length data = 4
         then (let s = data ! 3;
                   i = (case find_char CHR ''+'' s of
                          None \<Rightarrow> find_char CHR ''-'' s
                        | Some i \<Rightarrow> Some i)
               in case i of
                    Some (Suc k) \<Rightarrow> take 3 data @ [take (Suc k) s, drop (Suc k) s]
                  | _ \<Rightarrow> data @ [[]])
         else data)"

definition pd_time :: "string \<Rightarrow> (string \<times> string \<times> string) option" where
  \<comment> \<open>the hour, minute and second fields of the time word\<close>
  "pd_time tm =
     (let tms = split_on CHR '':'' tm
      in if length tms = 2 then Some (tms ! 0, tms ! 1, ''0'')
         else if length tms = 3 then Some (tms ! 0, tms ! 1, tms ! 2)
         else if length tms = 1 \<and> CHR ''.'' \<in> set (tms ! 0)
         then (let tmd = split_on CHR ''.'' (tms ! 0)
               in if length tmd = 2 then Some (tmd ! 0, tmd ! 1, ''0'')
                  else if length tmd = 3 then Some (tmd ! 0, tmd ! 1, tmd ! 2)
                  else None)
         else None)"

definition pd_zone :: "string \<Rightarrow> int option" where
  \<comment> \<open>the offset in seconds of the zone word; \<open>None\<close> for no offset\<close>
  "pd_zone tz0 =
     (let tz = upper tz0;
          tzoffset = (case map_of timezones tz of
                        Some v \<Rightarrow> Some v
                      | None \<Rightarrow>
                          (case py_int tz of
                             None \<Rightarrow> None
                           | Some v \<Rightarrow>
                               if v = 0 \<and> tz \<noteq> [] \<and> hd tz = CHR ''-'' then None else Some v))
      in case tzoffset of
           None \<Rightarrow> None
         | Some v \<Rightarrow>
             if v = 0 then Some 0
             else if v < 0 then Some (- (((- v) div 100) * 3600 + ((- v) mod 100) * 60))
             else Some ((v div 100) * 3600 + (v mod 100) * 60))"

definition parsedate_tz ::
  "string \<Rightarrow> (int \<times> int \<times> int \<times> int \<times> int \<times> int \<times> int option) option" where
  \<comment> \<open>\<^verbatim>\<open>email._parseaddr._parsedate_tz\<close>: year, month, day, hour, minute, second and offset.
      On the lines that read the last character of a word, the word is not empty.\<close>
  "parsedate_tz data0 =
     (if data0 = [] then None
      else if split_ws data0 = [] then None
      else
        let data = pd_tokens (split_ws data0) in
        if length data < 5 then None
        else
          let dd = data ! 0; mm = data ! 1; yy = data ! 2; tm = data ! 3; tz = data ! 4 in
          if dd = [] \<or> mm = [] \<or> yy = [] then None
          else
            let mm = lower mm;
                swapped = (mm \<notin> set monthnames);
                dd' = (if swapped then mm else dd);
                mm' = (if swapped then lower dd else mm)
            in if mm' \<notin> set monthnames then None
               else
                 let mi = int (index_of monthnames mm') + 1;
                     mi = (if mi > 12 then mi - 12 else mi);
                     dd = (if ends_with_comma dd' then butlast dd' else dd');
                     colon = (case find_char CHR '':'' yy of Some (Suc k) \<Rightarrow> True | _ \<Rightarrow> False);
                     yy' = (if colon then tm else yy);
                     tm' = (if colon then yy else tm)
                 in if yy' = '','' then None
                    else
                      let yy = (if ends_with_comma yy' then butlast yy' else yy');
                          nodigit = \<not> isdigit (hd yy);
                          yy2 = (if nodigit then tz else yy);
                          tz2 = (if nodigit then yy else tz);
                          tm = (if ends_with_comma tm' then butlast tm' else tm')
                      in case pd_time tm of
                           None \<Rightarrow> None
                         | Some (thh, tmm, tss) \<Rightarrow>
                             (case (py_int yy2, py_int dd, py_int thh, py_int tmm, py_int tss) of
                                (Some y, Some d, Some hh, Some mn, Some ss) \<Rightarrow>
                                  let y = (if y < 100 then (if y > 68 then y + 1900 else y + 2000)
                                           else y)
                                  in Some (y, mi, d, hh, mn, ss, pd_zone tz2)
                              | _ \<Rightarrow> None))"

definition parsedate_to_datetime :: "string \<Rightarrow> error + datetime" where
  "parsedate_to_datetime data =
     (case parsedate_tz data of
        None \<Rightarrow> Inl (ValueError None)
      | Some (y, m, d, hh, mn, ss, tz) \<Rightarrow>
          (case tz of
             None \<Rightarrow> new_datetime y m d hh mn ss None
           | Some s \<Rightarrow>
               (case new_timezone s of
                  Inl e \<Rightarrow> Inl e
                | Inr off \<Rightarrow> new_datetime y m d hh mn ss (Some off))))"

subsection \<open>\<^verbatim>\<open>datetime.strptime(value, "%Y-%m-%d")\<close>\<close>

text \<open>
  \<^verbatim>\<open>strptime\<close> compiles the format to the regular expression
  \<^verbatim>\<open>(?P<Y>\d\d\d\d)-(?P<m>1[0-2]|0[1-9]|[1-9])-(?P<d>3[0-1]|[1-2]\d|0[1-9]|[1-9]| [1-9])\<close>,
  matches it at the start of the input and refuses an input that the match does not use up.
  The alternatives of a group are tried in the order written; each function below gives the
  matches of one group, first choice first, each with the input left after it.
\<close>

definition nonzero_digit :: "char \<Rightarrow> bool" where
  "nonzero_digit c \<longleftrightarrow> c \<in> set ''123456789''"

definition re_Y :: "string \<Rightarrow> (string \<times> string) list" where
  "re_Y s = (if 4 \<le> length s \<and> list_all is_decimal (take 4 s) then [(take 4 s, drop 4 s)] else [])"

definition re_m :: "string \<Rightarrow> (string \<times> string) list" where
  "re_m s =
     (if 2 \<le> length s \<and> s ! 0 = CHR ''1'' \<and> s ! 1 \<in> set ''012'' then [(take 2 s, drop 2 s)] else []) @
     (if 2 \<le> length s \<and> s ! 0 = CHR ''0'' \<and> nonzero_digit (s ! 1) then [(take 2 s, drop 2 s)] else []) @
     (if 1 \<le> length s \<and> nonzero_digit (s ! 0) then [(take 1 s, drop 1 s)] else [])"

definition re_d :: "string \<Rightarrow> (string \<times> string) list" where
  "re_d s =
     (if 2 \<le> length s \<and> s ! 0 = CHR ''3'' \<and> s ! 1 \<in> set ''01'' then [(take 2 s, drop 2 s)] else []) @
     (if 2 \<le> length s \<and> s ! 0 \<in> set ''12'' \<and> is_decimal (s ! 1) then [(take 2 s, drop 2 s)] else []) @
     (if 2 \<le> length s \<and> s ! 0 = CHR ''0'' \<and> nonzero_digit (s ! 1) then [(take 2 s, drop 2 s)] else []) @
     (if 1 \<le> length s \<and> nonzero_digit (s ! 0) then [(take 1 s, drop 1 s)] else []) @
     (if 2 \<le> length s \<and> s ! 0 = CHR '' '' \<and> nonzero_digit (s ! 1) then [(take 2 s, drop 2 s)] else [])"

definition re_dash :: "string \<Rightarrow> string option" where
  "re_dash s = (case s of [] \<Rightarrow> None | c # cs \<Rightarrow> if c = CHR ''-'' then Some cs else None)"

definition re_match_Y_m_d :: "string \<Rightarrow> (string \<times> string \<times> string \<times> string) option" where
  \<comment> \<open>the groups Y, m and d of the first match, and the input after the match\<close>
  "re_match_Y_m_d s =
     (case concat (map (\<lambda>(Y, r1). case re_dash r1 of None \<Rightarrow> [] | Some r2 \<Rightarrow>
             concat (map (\<lambda>(m, r3). case re_dash r3 of None \<Rightarrow> [] | Some r4 \<Rightarrow>
               map (\<lambda>(d, r5). (Y, m, d, r5)) (re_d r4)) (re_m r2))) (re_Y s)) of
        [] \<Rightarrow> None
      | found # _ \<Rightarrow> Some found)"

definition strptime_Y_m_d :: "string \<Rightarrow> error + date" where
  \<comment> \<open>\<^verbatim>\<open>datetime.strptime(value, "%Y-%m-%d").date()\<close>\<close>
  "strptime_Y_m_d data_string =
     (case re_match_Y_m_d data_string of
        None \<Rightarrow> Inl (ValueError None)
      | Some (Y, m, d, rest) \<Rightarrow>
          if rest \<noteq> [] then Inl (ValueError None)
          else (case (py_int Y, py_int m, py_int d) of
                  (Some y, Some mo, Some dy) \<Rightarrow> new_date y mo dy
                | _ \<Rightarrow> Inl (ValueError None)))"

section \<open>The script: dates of blobs\<close>

text \<open>
  A blob is the dictionary that \<^verbatim>\<open>list_blobs\<close> builds: \<^verbatim>\<open>name\<close> and \<^verbatim>\<open>last_modified\<close> are a
  string or \<^verbatim>\<open>None\<close>, and \<^verbatim>\<open>size\<close> (here \<open>size_bytes\<close>) is an integer.
\<close>

record blob =
  name :: "string option"
  last_modified :: "string option"
  size_bytes :: int

definition parse_last_modified :: "string \<Rightarrow> error + datetime" where
  "parse_last_modified date_str = parsedate_to_datetime date_str"

definition invalid_date_message :: "string \<Rightarrow> string" where
  "invalid_date_message v =
     ''Invalid date '' @ [CHR 0x27] @ v @ [CHR 0x27] @ ''. Expected YYYY-MM-DD.''"

definition parse_yyyy_mm_dd :: "string \<Rightarrow> error + date" where
  "parse_yyyy_mm_dd v =
     (case strptime_Y_m_d v of
        Inr d \<Rightarrow> Inr d
      | Inl (ValueError _) \<Rightarrow> Inl (ValueError (Some (invalid_date_message v)))
      | Inl e \<Rightarrow> Inl e)"

definition blob_modified_date :: "blob \<Rightarrow> error + date option" where
  "blob_modified_date b =
     (case last_modified b of
        None \<Rightarrow> Inr None
      | Some s \<Rightarrow>
          if s = [] then Inr None
          else (case parse_last_modified s of
                  Inl e \<Rightarrow> Inl e
                | Inr dt \<Rightarrow>
                    (case (case tzinfo dt of
                             None \<Rightarrow> astimezone_utc
                                       (Datetime (date_part dt) (hour dt) (minute dt) (second dt) (Some 0)) 0
                           | Some off \<Rightarrow> astimezone_utc dt off) of
                       Inl e \<Rightarrow> Inl e
                     | Inr u \<Rightarrow> Inr (Some (date_part u)))))"

text \<open>
  A list comprehension \<^verbatim>\<open>[b for b in blobs if cond(b)]\<close> whose condition can raise: the
  conditions are evaluated in the order of the list, and the first exception ends the
  comprehension.
\<close>

fun comprehension :: "('a \<Rightarrow> error + bool) \<Rightarrow> 'a list \<Rightarrow> error + 'a list" where
  "comprehension cond [] = Inr []"
| "comprehension cond (b # bs) =
     (case cond b of
        Inl e \<Rightarrow> Inl e
      | Inr keep \<Rightarrow>
          (case comprehension cond bs of
             Inl e \<Rightarrow> Inl e
           | Inr rest \<Rightarrow> Inr (if keep then b # rest else rest)))"

definition since_cond :: "date \<Rightarrow> blob \<Rightarrow> error + bool" where
  \<comment> \<open>\<^verbatim>\<open>(modified_date := _blob_modified_date(b)) and modified_date >= cutoff\<close>; a date is
      never false\<close>
  "since_cond cutoff b =
     (case blob_modified_date b of
        Inl e \<Rightarrow> Inl e
      | Inr None \<Rightarrow> Inr False
      | Inr (Some modified_date) \<Rightarrow> Inr (date_le cutoff modified_date))"

definition date_cond :: "date \<Rightarrow> blob \<Rightarrow> error + bool" where
  \<comment> \<open>\<^verbatim>\<open>_blob_modified_date(b) == target\<close>\<close>
  "date_cond target b =
     (case blob_modified_date b of
        Inl e \<Rightarrow> Inl e
      | Inr None \<Rightarrow> Inr False
      | Inr (Some modified_date) \<Rightarrow> Inr (modified_date = target))"

definition range_cond :: "date \<Rightarrow> date \<Rightarrow> blob \<Rightarrow> error + bool" where
  \<comment> \<open>\<^verbatim>\<open>(modified_date := _blob_modified_date(b)) and start <= modified_date <= end\<close>\<close>
  "range_cond start end_date b =
     (case blob_modified_date b of
        Inl e \<Rightarrow> Inl e
      | Inr None \<Rightarrow> Inr False
      | Inr (Some modified_date) \<Rightarrow>
          Inr (date_le start modified_date \<and> date_le modified_date end_date))"

definition filtered_since :: "date \<Rightarrow> blob list \<Rightarrow> error + blob list" where
  "filtered_since cutoff blobs = comprehension (since_cond cutoff) blobs"

definition filtered_date :: "date \<Rightarrow> blob list \<Rightarrow> error + blob list" where
  "filtered_date target blobs = comprehension (date_cond target) blobs"

definition filtered_range :: "date \<Rightarrow> date \<Rightarrow> blob list \<Rightarrow> error + blob list" where
  "filtered_range start end_date blobs = comprehension (range_cond start end_date) blobs"

section \<open>The environment: the URL library and the storage service\<close>

text \<open>
  What the script cannot compute by itself is a parameter, collected in \<open>env\<close>:
  \<^item> \<open>check_bracketed_host h\<close> tells whether \<^verbatim>\<open>urllib.parse\<close> accepts \<open>h\<close> as the host written
    between brackets in a URL (an IPv6 or IPvFuture literal);
  \<^item> \<open>http_get sent url\<close> is what \<^verbatim>\<open>SESSION.get(url)\<close> meets when \<open>sent\<close> are the URLs requested
    before, in order: \<open>Failed\<close> when the request or \<^verbatim>\<open>raise_for_status\<close> raises, \<open>Content None\<close>
    for a body that is not well-formed XML, and \<open>Content (Some l)\<close> for a body that
    \<^verbatim>\<open>ElementTree\<close> parses, \<open>l\<close> holding its \<^verbatim>\<open>.//Blob\<close> elements and the text of its
    \<^verbatim>\<open>NextMarker\<close>.
  The file system and the printed lines are left out.
\<close>

record blob_element =
  elem_name :: "string option"
    \<comment> \<open>\<^verbatim>\<open>blob.findtext("Name")\<close>\<close>
  elem_properties :: "(string option \<times> string option) option"
    \<comment> \<open>\<^verbatim>\<open>blob.find("Properties")\<close>: the texts of \<^verbatim>\<open>Last-Modified\<close> and \<^verbatim>\<open>Content-Length\<close>\<close>

record listing =
  blob_elements :: "blob_element list"
  next_marker :: "string option"

datatype response = Failed | Content "listing option"

record env =
  check_bracketed_host :: "string \<Rightarrow> bool"
  http_get :: "string list \<Rightarrow> string \<Rightarrow> response"

subsection \<open>\<^verbatim>\<open>urllib.parse.urlparse\<close>\<close>

datatype parse_result =
  ParseResult (pr_scheme: string) (pr_netloc: string) (pr_path: string) (pr_params: string)
    (pr_query: string) (pr_fragment: string)

definition ascii_letters :: string where
  "ascii_letters = ''abcdefghijklmnopqrstuvwxyzABCDEFGHIJKLMNOPQRSTUVWXYZ''"

definition scheme_chars :: string where
  "scheme_chars = ascii_letters @ ''0123456789+-.''"

definition uses_params :: "string list" where
  "uses_params = ['''', ''ftp'', ''hdl'', ''prospero'', ''http'', ''imap'', ''https'', ''shttp'',
     ''rtsp'', ''rtsps'', ''rtspu'', ''sip'', ''sips'', ''mms'', ''sftp'', ''tel'']"

definition c0_control_or_space :: "char \<Rightarrow> bool" where
  "c0_control_or_space c \<longleftrightarrow> (of_char c :: nat) \<le> 32"

definition unsafe_url_byte :: "char \<Rightarrow> bool" where
  "unsafe_url_byte c \<longleftrightarrow> c \<in> set [CHR 0x09, CHR 0x0D, CHR 0x0A]"

definition split_scheme :: "string \<Rightarrow> string \<times> string" where
  \<comment> \<open>the scheme (empty when there is none) and the rest of the URL\<close>
  "split_scheme url =
     (case find_char CHR '':'' url of
        Some (Suc k) \<Rightarrow>
          if hd url \<in> set ascii_letters \<and> list_all (\<lambda>c. c \<in> set scheme_chars) (take (Suc k) url)
          then (lower (take (Suc k) url), drop (Suc (Suc k)) url)
          else ([], url)
      | _ \<Rightarrow> ([], url))"

definition netloc_delim :: "char \<Rightarrow> bool" where
  "netloc_delim c \<longleftrightarrow> c \<in> set ''/?#''"

definition splitnetloc :: "string \<Rightarrow> string \<times> string" where
  \<comment> \<open>\<^verbatim>\<open>_splitnetloc(url, 2)\<close>\<close>
  "splitnetloc url =
     (takeWhile (\<lambda>c. \<not> netloc_delim c) (drop 2 url),
      dropWhile (\<lambda>c. \<not> netloc_delim c) (drop 2 url))"

definition split_first :: "char \<Rightarrow> string \<Rightarrow> string \<times> string" where
  \<comment> \<open>\<^verbatim>\<open>s.split(c, 1)\<close> for an \<open>s\<close> that holds \<open>c\<close>; else \<open>s\<close> and the empty string\<close>
  "split_first c s = (takeWhile (\<lambda>x. x \<noteq> c) s, drop 1 (dropWhile (\<lambda>x. x \<noteq> c) s))"

definition urlsplit ::
  "env \<Rightarrow> string \<Rightarrow> error + (string \<times> string \<times> string \<times> string \<times> string)" where
  \<comment> \<open>scheme, netloc, path, query and fragment\<close>
  "urlsplit ev url0 =
     (let url = filter (\<lambda>c. \<not> unsafe_url_byte c) (dropWhile c0_control_or_space url0);
          (scheme, url) = split_scheme url;
          (netloc, url) = (if take 2 url = ''//'' then splitnetloc url else ([], url));
          lb = (CHR ''['' \<in> set netloc);
          rb = (CHR '']'' \<in> set netloc)
      in if (lb \<and> \<not> rb) \<or> (rb \<and> \<not> lb) then Inl (ValueError None)
         else if lb \<and> rb \<and>
                 \<not> check_bracketed_host ev
                     (fst (split_first CHR '']'' (snd (split_first CHR ''['' netloc))))
         then Inl (ValueError None)
         else
           let (url, fragment) = split_first CHR ''#'' url;
               (url, query) = split_first CHR ''?'' url
           in Inr (scheme, netloc, url, query, fragment))"

definition splitparams :: "string \<Rightarrow> string \<times> string" where
  \<comment> \<open>\<^verbatim>\<open>_splitparams(url)\<close> for a \<open>url\<close> that holds a semicolon\<close>
  "splitparams url =
     (if CHR ''/'' \<in> set url
      then (case rfind_char CHR ''/'' url of
              None \<Rightarrow> (url, [])
            | Some k \<Rightarrow>
                (case find_char CHR '';'' (drop k url) of
                   None \<Rightarrow> (url, [])
                 | Some j \<Rightarrow> (take (k + j) url, drop (k + j + 1) url)))
      else (case find_char CHR '';'' url of
              None \<Rightarrow> (url, [])
            | Some i \<Rightarrow> (take i url, drop (i + 1) url)))"

definition urlparse :: "env \<Rightarrow> string \<Rightarrow> error + parse_result" where
  "urlparse ev url =
     (case urlsplit ev url of
        Inl e \<Rightarrow> Inl e
      | Inr (scheme, netloc, path, query, fragment) \<Rightarrow>
          if scheme \<in> set uses_params \<and> CHR '';'' \<in> set path
          then (let (p, params) = splitparams path
                in Inr (ParseResult scheme netloc p params query fragment))
          else Inr (ParseResult scheme netloc path [] query fragment))"

section \<open>The script: listing and downloading\<close>

definition sas_params :: "env \<Rightarrow> string \<Rightarrow> error + string" where
  "sas_params ev sas_url =
     (case urlparse ev sas_url of Inl e \<Rightarrow> Inl e | Inr parsed \<Rightarrow> Inr (pr_query parsed))"

definition base_url :: "env \<Rightarrow> string \<Rightarrow> error + string" where
  "base_url ev sas_url =
     (case urlparse ev sas_url of
        Inl e \<Rightarrow> Inl e
      | Inr parsed \<Rightarrow> Inr (pr_scheme parsed @ ''://'' @ pr_netloc parsed @ pr_path parsed))"

text \<open>
  A run of an operation ends in one of three ways. \<open>Timeout\<close> is not an outcome of the
  script: it says that the loop of \<^verbatim>\<open>list_blobs\<close> was still asking for pages when the
  number of requests allowed to it (the fuel) was used up. Every operation takes the URLs
  requested so far and gives them back with its own requests added.
\<close>

datatype 'a outcome = Return 'a | Raise error | Timeout

definition truthy :: "string option \<Rightarrow> bool" where
  \<comment> \<open>the truth value of a string or \<^verbatim>\<open>None\<close>\<close>
  "truthy v \<longleftrightarrow> (case v of None \<Rightarrow> False | Some s \<Rightarrow> s \<noteq> [])"

definition blob_of_element :: "blob_element \<Rightarrow> error + blob" where
  \<comment> \<open>the body of the \<^verbatim>\<open>for blob in root.findall(".//Blob")\<close> loop\<close>
  "blob_of_element el =
     (let lm = (case elem_properties el of None \<Rightarrow> None | Some (l, s) \<Rightarrow> l);
          sz = (case elem_properties el of None \<Rightarrow> None | Some (l, s) \<Rightarrow> s)
      in if truthy sz
         then (case py_int (the sz) of
                 None \<Rightarrow> Inl (ValueError None)
               | Some n \<Rightarrow> Inr \<lparr>name = elem_name el, last_modified = lm, size_bytes = n\<rparr>)
         else Inr \<lparr>name = elem_name el, last_modified = lm, size_bytes = 0\<rparr>)"

fun blobs_of_elements :: "blob_element list \<Rightarrow> error + blob list" where
  "blobs_of_elements [] = Inr []"
| "blobs_of_elements (el # els) =
     (case blob_of_element el of
        Inl e \<Rightarrow> Inl e
      | Inr b \<Rightarrow> (case blobs_of_elements els of Inl e \<Rightarrow> Inl e | Inr bs \<Rightarrow> Inr (b # bs)))"

definition listing_url :: "string \<Rightarrow> string \<Rightarrow> string option \<Rightarrow> string" where
  "listing_url base params marker =
     (let url = base @ ''?restype=container&comp=list&'' @ params
      in if truthy marker then url @ ''&marker='' @ the marker else url)"

fun list_blobs_loop ::
  "env \<Rightarrow> nat \<Rightarrow> string \<Rightarrow> string \<Rightarrow> string option \<Rightarrow> blob list \<Rightarrow> string list \<Rightarrow>
   blob list outcome \<times> string list" where
  "list_blobs_loop ev 0 base params marker blobs sent = (Timeout, sent)"
| "list_blobs_loop ev (Suc fuel) base params marker blobs sent =
     (let url = listing_url base params marker in
      case http_get ev sent url of
        Failed \<Rightarrow> (Raise HTTPError, sent @ [url])
      | Content None \<Rightarrow> (Raise ParseError, sent @ [url])
      | Content (Some root) \<Rightarrow>
          (case blobs_of_elements (blob_elements root) of
             Inl e \<Rightarrow> (Raise e, sent @ [url])
           | Inr new \<Rightarrow>
               if \<not> truthy (next_marker root) then (Return (blobs @ new), sent @ [url])
               else list_blobs_loop ev fuel base params (next_marker root) (blobs @ new)
                      (sent @ [url])))"

definition list_blobs ::
  "env \<Rightarrow> nat \<Rightarrow> string \<Rightarrow> string list \<Rightarrow> blob list outcome \<times> string list" where
  "list_blobs ev fuel sas_url sent =
     (case base_url ev sas_url of
        Inl e \<Rightarrow> (Raise e, sent)
      | Inr base \<Rightarrow>
          (case sas_params ev sas_url of
             Inl e \<Rightarrow> (Raise e, sent)
           | Inr params \<Rightarrow> list_blobs_loop ev fuel base params None [] sent))"

definition path_join :: "string \<Rightarrow> string \<Rightarrow> string" where
  \<comment> \<open>\<^verbatim>\<open>os.path.join(a, b)\<close> of \<^verbatim>\<open>posixpath\<close>\<close>
  "path_join a b =
     (if b \<noteq> [] \<and> hd b = CHR ''/'' then b
      else if a = [] \<or> last a = CHR ''/'' then a @ b
      else a @ ''/'' @ b)"

definition blob_url :: "string \<Rightarrow> string \<Rightarrow> string \<Rightarrow> string" where
  "blob_url base blob_name params = base @ ''/'' @ blob_name @ ''?'' @ params"

definition download_blob ::
  "env \<Rightarrow> string option \<Rightarrow> string \<Rightarrow> string \<Rightarrow> string list \<Rightarrow> string outcome \<times> string list" where
  \<comment> \<open>a name that is \<^verbatim>\<open>None\<close> makes \<^verbatim>\<open>os.path.join\<close> raise, before the request\<close>
  "download_blob ev blob_name dest_dir sas_url sent =
     (case base_url ev sas_url of
        Inl e \<Rightarrow> (Raise e, sent)
      | Inr base \<Rightarrow>
          (case sas_params ev sas_url of
             Inl e \<Rightarrow> (Raise e, sent)
           | Inr params \<Rightarrow>
               (case blob_name of
                  None \<Rightarrow> (Raise TypeError, sent)
                | Some n \<Rightarrow>
                    (case http_get ev sent (blob_url base n params) of
                       Failed \<Rightarrow> (Raise HTTPError, sent @ [blob_url base n params])
                     | Content _ \<Rightarrow>
                         (Return (path_join dest_dir n), sent @ [blob_url base n params])))))"

fun download_each ::
  "env \<Rightarrow> blob list \<Rightarrow> string \<Rightarrow> string \<Rightarrow> string list \<Rightarrow> unit outcome \<times> string list" where
  \<comment> \<open>the loop \<^verbatim>\<open>for blob in blobs: path = download_blob(blob["name"], dest_dir, sas_url)\<close>\<close>
  "download_each ev [] dest_dir sas_url sent = (Return (), sent)"
| "download_each ev (b # bs) dest_dir sas_url sent =
     (case download_blob ev (name b) dest_dir sas_url sent of
        (Return p, sent') \<Rightarrow> download_each ev bs dest_dir sas_url sent'
      | (Raise e, sent') \<Rightarrow> (Raise e, sent')
      | (Timeout, sent') \<Rightarrow> (Timeout, sent'))"

definition download_filtered ::
  "env \<Rightarrow> blob list \<Rightarrow> string \<Rightarrow> string \<Rightarrow> string list \<Rightarrow> unit outcome \<times> string list" where
  "download_filtered ev blobs dest_dir sas_url sent = download_each ev blobs dest_dir sas_url sent"

definition download_all ::
  "env \<Rightarrow> nat \<Rightarrow> string \<Rightarrow> string \<Rightarrow> string list \<Rightarrow> unit outcome \<times> string list" where
  "download_all ev fuel dest_dir sas_url sent =
     (case list_blobs ev fuel sas_url sent of
        (Return blobs, sent') \<Rightarrow> download_each ev blobs dest_dir sas_url sent'
      | (Raise e, sent') \<Rightarrow> (Raise e, sent')
      | (Timeout, sent') \<Rightarrow> (Timeout, sent'))"

definition download_since ::
  "env \<Rightarrow> nat \<Rightarrow> string \<Rightarrow> string \<Rightarrow> string \<Rightarrow> string list \<Rightarrow> unit outcome \<times> string list" where
  "download_since ev fuel since dest_dir sas_url sent =
     (case parse_yyyy_mm_dd since of
        Inl e \<Rightarrow> (Raise e, sent)
      | Inr cutoff \<Rightarrow>
          (case list_blobs ev fuel sas_url sent of
             (Return blobs, sent') \<Rightarrow>
               (case filtered_since cutoff blobs of
                  Inl e \<Rightarrow> (Raise e, sent')
                | Inr filtered \<Rightarrow> download_filtered ev filtered dest_dir sas_url sent')
           | (Raise e, sent') \<Rightarrow> (Raise e, sent')
           | (Timeout, sent') \<Rightarrow> (Timeout, sent')))"

definition download_date ::
  "env \<Rightarrow> nat \<Rightarrow> string \<Rightarrow> string \<Rightarrow> string \<Rightarrow> string list \<Rightarrow> unit outcome \<times> string list" where
  "download_date ev fuel target_date dest_dir sas_url sent =
     (case parse_yyyy_mm_dd target_date of
        Inl e \<Rightarrow> (Raise e, sent)
      | Inr target \<Rightarrow>
          (case list_blobs ev fuel sas_url sent of
             (Return blobs, sent') \<Rightarrow>
               (case filtered_date target blobs of
                  Inl e \<Rightarrow> (Raise e, sent')
                | Inr filtered \<Rightarrow> download_filtered ev filtered dest_dir sas_url sent')
           | (Raise e, sent') \<Rightarrow> (Raise e, sent')
           | (Timeout, sent') \<Rightarrow> (Timeout, sent')))"

definition end_before_start_message :: string where
  "end_before_start_message = ''End date must be the same as or after start date.''"

definition download_range ::
  "env \<Rightarrow> nat \<Rightarrow> string \<Rightarrow> string \<Rightarrow> string \<Rightarrow> string \<Rightarrow> string list \<Rightarrow>
   unit outcome \<times> string list" where
  "download_range ev fuel start_date end_date dest_dir sas_url sent =
     (case parse_yyyy_mm_dd start_date of
        Inl e \<Rightarrow> (Raise e, sent)
      | Inr start \<Rightarrow>
          (case parse_yyyy_mm_dd end_date of
             Inl e \<Rightarrow> (Raise e, sent)
           | Inr end_d \<Rightarrow>
               if date_lt end_d start then (Raise (ValueError (Some end_before_start_message)), sent)
               else
                 (case list_blobs ev fuel sas_url sent of
                    (Return blobs, sent') \<Rightarrow>
                      (case filtered_range start end_d blobs of
                         Inl e \<Rightarrow> (Raise e, sent')
                       | Inr filtered \<Rightarrow> download_filtered ev filtered dest_dir sas_url sent')
                  | (Raise e, sent') \<Rightarrow> (Raise e, sent')
                  | (Timeout, sent') \<Rightarrow> (Timeout, sent'))))"

section \<open>Example records\<close>

definition ex_midnight :: blob where
  "ex_midnight = \<lparr>name = Some ''a.csv'',
     last_modified = Some ''Wed, 11 Feb 2026 00:00:00 GMT'', size_bytes = 10\<rparr>"

definition ex_evening :: blob where
  "ex_evening = \<lparr>name = Some ''b.csv'',
     last_modified = Some ''Wed, 11 Feb 2026 23:59:59 GMT'', size_bytes = 20\<rparr>"

definition ex_next_day :: blob where
  "ex_next_day = \<lparr>name = Some ''c.csv'',
     last_modified = Some ''Thu, 12 Feb 2026 00:00:01 GMT'', size_bytes = 30\<rparr>"

definition ex_undated :: blob where
  "ex_undated = \<lparr>name = Some ''d.csv'', last_modified = None, size_bytes = 0\<rparr>"

definition ex_garbled :: blob where
  "ex_garbled = \<lparr>name = Some ''e.csv'', last_modified = Some ''not a date'', size_bytes = 0\<rparr>"

section \<open>An example service\<close>

text \<open>
  A container \<^verbatim>\<open>reports\<close> listed in two pages and a container \<^verbatim>\<open>scans\<close> listed in one, with
  a record whose timestamp is not a date. The service answers by the URL alone.
\<close>

definition ex_sas_url :: string where
  "ex_sas_url = ''https://acct.blob.core.windows.net/reports?sv=2024&sig=abc''"

definition ex_scans_url :: string where
  "ex_scans_url = ''https://acct.blob.core.windows.net/scans?sv=2024&sig=abc''"

definition ex_page1 :: listing where
  "ex_page1 = \<lparr>blob_elements =
       [\<lparr>elem_name = Some ''a.csv'',
          elem_properties = Some (Some ''Wed, 11 Feb 2026 00:00:00 GMT'', Some ''10'')\<rparr>,
        \<lparr>elem_name = Some ''b.csv'',
          elem_properties = Some (Some ''Wed, 11 Feb 2026 23:59:59 GMT'', Some ''20'')\<rparr>],
     next_marker = Some ''m1''\<rparr>"

definition ex_page2 :: listing where
  "ex_page2 = \<lparr>blob_elements =
       [\<lparr>elem_name = Some ''c.csv'',
          elem_properties = Some (Some ''Thu, 12 Feb 2026 00:00:01 GMT'', Some ''30'')\<rparr>,
        \<lparr>elem_name = Some ''d.csv'', elem_properties = None\<rparr>],
     next_marker = None\<rparr>"

definition ex_scans_page :: listing where
  "ex_scans_page = \<lparr>blob_elements =
       [\<lparr>elem_name = Some ''c.csv'',
          elem_properties = Some (Some ''Thu, 12 Feb 2026 00:00:01 GMT'', Some ''30'')\<rparr>,
        \<lparr>elem_name = Some ''e.csv'', elem_properties = Some (Some ''not a date'', None)\<rparr>],
     next_marker = Some []\<rparr>"

definition ex_get :: "string list \<Rightarrow> string \<Rightarrow> response" where
  "ex_get sent url =
     (if url = ''https://acct.blob.core.windows.net/reports?restype=container&comp=list&sv=2024&sig=abc''
      then Content (Some ex_page1)
      else if url = ''https://acct.blob.core.windows.net/reports?restype=container&comp=list&sv=2024&sig=abc&marker=m1''
      then Content (Some ex_page2)
      else if url = ''https://acct.blob.core.windows.net/scans?restype=container&comp=list&sv=2024&sig=abc''
      then Content (Some ex_scans_page)
      else if url \<in> set [''https://acct.blob.core.windows.net/reports/a.csv?sv=2024&sig=abc'',
                          ''https://acct.blob.core.windows.net/reports/b.csv?sv=2024&sig=abc'',
                          ''https://acct.blob.core.windows.net/reports/c.csv?sv=2024&sig=abc'',
                          ''https://acct.blob.core.windows.net/reports/d.csv?sv=2024&sig=abc'',
                          ''https://acct.blob.core.windows.net/scans/c.csv?sv=2024&sig=abc'',
                          ''https://acct.blob.core.windows.net/scans/e.csv?sv=2024&sig=abc'']
      then Content None
      else Failed)"

definition ex_env :: env where
  "ex_env = \<lparr>check_bracketed_host = (\<lambda>h. False), http_get = ex_get\<rparr>"

section \<open>Observations on a run of the listing\<close>

text \<open>
  \<open>response_at ev reqs i\<close> is the response that request number \<open>i\<close> of the requests
  \<open>reqs\<close> met, \<open>page_blobs r\<close> the records of a response, \<open>failure_of r\<close> the exception
  a response makes \<^verbatim>\<open>list_blobs\<close> raise, \<open>goes_on r\<close> says that \<^verbatim>\<open>list_blobs\<close> asks for another
  page after \<open>r\<close>, and \<open>marker_of r\<close> is the marker it then sends.
\<close>

definition page_blobs :: "response \<Rightarrow> blob list" where
  "page_blobs r =
     (case r of
        Content (Some root) \<Rightarrow>
          (case blobs_of_elements (blob_elements root) of Inr bs \<Rightarrow> bs | Inl e \<Rightarrow> [])
      | _ \<Rightarrow> [])"

definition goes_on :: "response \<Rightarrow> bool" where
  "goes_on r \<longleftrightarrow>
     (case r of
        Content (Some root) \<Rightarrow>
          \<not> isl (blobs_of_elements (blob_elements root)) \<and> truthy (next_marker root)
      | _ \<Rightarrow> False)"

definition marker_of :: "response \<Rightarrow> string option" where
  "marker_of r = (case r of Content (Some root) \<Rightarrow> next_marker root | _ \<Rightarrow> None)"

definition failure_of :: "response \<Rightarrow> error option" where
  "failure_of r =
     (case r of
        Failed \<Rightarrow> Some HTTPError
      | Content None \<Rightarrow> Some ParseError
      | Content (Some root) \<Rightarrow>
          (case blobs_of_elements (blob_elements root) of Inl e \<Rightarrow> Some e | Inr bs \<Rightarrow> None))"


section \<open>The date format in the words of the specification\<close>

definition spec_yyyy_mm_dd :: "string \<Rightarrow> bool" where
  \<comment> \<open>\<^verbatim>\<open>YYYY-MM-DD\<close> read as the specification writes it: four digits, a hyphen, two digits,
      a hyphen, two digits\<close>
  "spec_yyyy_mm_dd v \<longleftrightarrow>
     length v = 10 \<and> list_all is_decimal (take 4 v) \<and> v ! 4 = CHR ''-'' \<and>
     list_all is_decimal (take 2 (drop 5 v)) \<and> v ! 7 = CHR ''-'' \<and>
     list_all is_decimal (drop 8 v)"

section \<open>The query string in the words of the specification\<close>

definition spec_query_string :: "string \<Rightarrow> string" where
  \<comment> \<open>the query string of a URL as it is written: of the part before the first number sign,
      what follows the first question mark\<close>
  "spec_query_string url =
     drop 1 (dropWhile (\<lambda>c. c \<noteq> CHR ''?'') (takeWhile (\<lambda>c. c \<noteq> CHR ''#'') url))"


section \<open>Example timestamps\<close>

definition ex_noon :: blob where
  "ex_noon = \<lparr>name = Some ''f.csv'',
     last_modified = Some ''Tue, 11 Feb 2026 12:00:00 GMT'', size_bytes = 1\<rparr>"

definition ex_late_est :: blob where
  "ex_late_est = \<lparr>name = Some ''g.csv'',
     last_modified = Some ''Tue, 11 Feb 2026 23:30:00 -0500'', size_bytes = 1\<rparr>"

definition ex_no_zone :: blob where
  "ex_no_zone = \<lparr>name = Some ''h.csv'',
     last_modified = Some ''Tue, 11 Feb 2026 23:30:00'', size_bytes = 1\<rparr>"

definition ex_last_day :: blob where
  "ex_last_day = \<lparr>name = Some ''i.csv'',
     last_modified = Some ''Fri, 31 Dec 9999 23:30:00 -0500'', size_bytes = 1\<rparr>"

section \<open>Properties of the date filters\<close>

lemma ex_dates:
  "blob_modified_date ex_midnight = Inr (Some (Date 2026 2 11))"
  "blob_modified_date ex_evening = Inr (Some (Date 2026 2 11))"
  "blob_modified_date ex_next_day = Inr (Some (Date 2026 2 12))"
  "blob_modified_date ex_undated = Inr None"
  "blob_modified_date ex_garbled = Inl (ValueError None)"
  by code_simp+

lemma comprehension_Inr_iff:
  "comprehension cond bs = Inr ys \<longleftrightarrow>
     (\<forall>b \<in> set bs. \<not> isl (cond b)) \<and> ys = filter (\<lambda>b. cond b = Inr True) bs"
proof (induction bs arbitrary: ys)
  case Nil
  show ?case by auto
next
  case (Cons b bs)
  show ?case
  proof (cases "cond b")
    case (Inl e)
    then show ?thesis by simp
  next
    case (Inr keep)
    note cb = this
    show ?thesis
    proof (cases "comprehension cond bs")
      case (Inl e)
      with Cons.IH[of "filter (\<lambda>b. cond b = Inr True) bs"] cb show ?thesis by auto
    next
      case (Inr rest)
      with Cons.IH[of rest] cb show ?thesis by auto
    qed
  qed
qed

lemma comprehension_subseq: "comprehension cond bs = Inr ys \<Longrightarrow> subseq ys bs"
  by (simp add: comprehension_Inr_iff)

lemma date_le_antisym: "date_le a b \<Longrightarrow> date_le b a \<Longrightarrow> a = b"
  by (auto simp: date_le_def intro: date.expand)

lemma date_le_refl: "date_le a a"
  by (simp add: date_le_def)

lemma date_lt_irrefl: "\<not> date_lt d d"
  by (simp add: date_lt_def)

lemma range_cond_same: "range_cond d d b = date_cond d b"
  by (auto simp: range_cond_def date_cond_def date_le_refl dest: date_le_antisym
      split: sum.splits option.splits)

lemma range_cond_same_fun: "range_cond d d = date_cond d"
  by (rule ext) (rule range_cond_same)

lemma filtered_range_same: "filtered_range d d blobs = filtered_date d blobs"
  by (simp add: filtered_range_def filtered_date_def range_cond_same_fun)

lemma date_cond_True:
  "date_cond target b = Inr True \<longleftrightarrow> blob_modified_date b = Inr (Some target)"
  by (auto simp: date_cond_def split: sum.splits option.splits)

lemma date_cond_isl: "isl (date_cond target b) \<longleftrightarrow> isl (blob_modified_date b)"
  by (auto simp: date_cond_def split: sum.splits option.splits)

lemma since_cond_True:
  "since_cond cutoff b = Inr True \<longleftrightarrow>
     (case blob_modified_date b of Inr (Some d) \<Rightarrow> date_le cutoff d | _ \<Rightarrow> False)"
  by (auto simp: since_cond_def split: sum.splits option.splits)

lemma since_cond_isl: "isl (since_cond cutoff b) \<longleftrightarrow> isl (blob_modified_date b)"
  by (auto simp: since_cond_def split: sum.splits option.splits)

lemma range_cond_isl: "isl (range_cond s e b) \<longleftrightarrow> isl (blob_modified_date b)"
  by (auto simp: range_cond_def split: sum.splits option.splits)

text \<open>
  C3 (as amended). The exact-day filter returns a list exactly when no record of the
  listing has a timestamp whose normalization raises, and the list then holds exactly the
  records whose normalized date is the target, in their order. Of three records stamped
  2026-02-11 00:00:00, 2026-02-11 23:59:59 and 2026-02-12 00:00:01 UTC it keeps the first
  two for the target 2026-02-11.
\<close>

theorem exact_day:
  "(filtered_date target blobs = Inr ys \<longleftrightarrow>
      (\<forall>b \<in> set blobs. \<not> isl (blob_modified_date b)) \<and>
      ys = filter (\<lambda>b. blob_modified_date b = Inr (Some target)) blobs) \<and>
   filtered_date (Date 2026 2 11) [ex_midnight, ex_evening, ex_next_day] =
     Inr [ex_midnight, ex_evening]"
proof
  show "filtered_date target blobs = Inr ys \<longleftrightarrow>
      (\<forall>b \<in> set blobs. \<not> isl (blob_modified_date b)) \<and>
      ys = filter (\<lambda>b. blob_modified_date b = Inr (Some target)) blobs"
    by (simp add: filtered_date_def comprehension_Inr_iff date_cond_True date_cond_isl)
  show "filtered_date (Date 2026 2 11) [ex_midnight, ex_evening, ex_next_day] =
     Inr [ex_midnight, ex_evening]"
    by (simp add: filtered_date_def date_cond_def ex_dates)
qed

theorem exact_day_witness:
  "\<not> isl (blob_modified_date ex_undated) \<and> \<not> isl (blob_modified_date ex_next_day) \<and>
   \<not> isl (blob_modified_date ex_midnight) \<and>
   filtered_date (Date 2026 2 11) [ex_undated, ex_next_day, ex_midnight] = Inr [ex_midnight]"
  using exact_day [of "Date 2026 2 11" "[ex_undated, ex_next_day, ex_midnight]" "[ex_midnight]"]
  by (simp add: ex_dates)

text \<open>
  C3 as stated fails on a listing that holds a record with a timestamp that is not a date:
  the record dated 2026-02-11 is not retained, the filter raises.
\<close>

theorem exact_day_aborts:
  "blob_modified_date ex_midnight = Inr (Some (Date 2026 2 11)) \<and>
   filtered_date (Date 2026 2 11) [ex_midnight, ex_garbled] = Inl (ValueError None)"
  by (simp add: filtered_date_def date_cond_def ex_dates)

text \<open>
  C4 (as amended). The since filter returns a list exactly when no record of the listing
  has a timestamp whose normalization raises, and the list then holds exactly the records
  whose normalized date is defined and on or after the cutoff, in their order.
\<close>

theorem since_inclusive:
  "filtered_since cutoff blobs = Inr ys \<longleftrightarrow>
     (\<forall>b \<in> set blobs. \<not> isl (blob_modified_date b)) \<and>
     ys = filter (\<lambda>b. case blob_modified_date b of
                          Inr (Some d) \<Rightarrow> date_le cutoff d | _ \<Rightarrow> False) blobs"
  by (simp add: filtered_since_def comprehension_Inr_iff since_cond_True since_cond_isl)

theorem since_inclusive_witness:
  "\<not> isl (blob_modified_date ex_midnight) \<and> \<not> isl (blob_modified_date ex_undated) \<and>
   \<not> isl (blob_modified_date ex_next_day) \<and>
   filtered_since (Date 2026 2 11) [ex_midnight, ex_undated, ex_next_day] =
     Inr [ex_midnight, ex_next_day] \<and>
   filtered_since (Date 2026 2 12) [ex_midnight, ex_undated, ex_next_day] = Inr [ex_next_day]"
  using since_inclusive [of "Date 2026 2 11" "[ex_midnight, ex_undated, ex_next_day]"
          "[ex_midnight, ex_next_day]"]
    since_inclusive [of "Date 2026 2 12" "[ex_midnight, ex_undated, ex_next_day]" "[ex_next_day]"]
  by (simp add: ex_dates date_le_def)

text \<open>
  C4 as stated fails on a listing that holds a record with a timestamp that is not a date:
  the record dated 2026-02-12, after the cutoff, is not retained, the filter raises.
\<close>

theorem since_aborts:
  "blob_modified_date ex_next_day = Inr (Some (Date 2026 2 12)) \<and>
   date_le (Date 2026 2 11) (Date 2026 2 12) \<and>
   filtered_since (Date 2026 2 11) [ex_garbled, ex_next_day] = Inl (ValueError None)"
  by (simp add: filtered_since_def since_cond_def ex_dates date_le_def)

text \<open>
  C8. The list that a date filter returns is a subsequence of the listing it was given:
  the records it keeps are in their original order, and none is new or repeated. This
  holds for the filters of \<^verbatim>\<open>download_since\<close>, \<^verbatim>\<open>download_date\<close> and \<^verbatim>\<open>download_range\<close>;
  \<^verbatim>\<open>download_all\<close> has no filter and downloads the listing as it is.
\<close>

theorem filters_give_subsequences:
  "(filtered_since cutoff blobs = Inr ys \<longrightarrow> subseq ys blobs) \<and>
   (filtered_date target blobs = Inr ys \<longrightarrow> subseq ys blobs) \<and>
   (filtered_range start end_date blobs = Inr ys \<longrightarrow> subseq ys blobs)"
  by (simp add: filtered_since_def filtered_date_def filtered_range_def comprehension_subseq)

theorem filters_give_subsequences_witness:
  "filtered_range (Date 2026 2 12) (Date 2026 2 28) [ex_midnight, ex_undated, ex_next_day]
     = Inr [ex_next_day] \<and>
   subseq [ex_next_day] [ex_midnight, ex_undated, ex_next_day]"
proof -
  have h: "filtered_range (Date 2026 2 12) (Date 2026 2 28)
             [ex_midnight, ex_undated, ex_next_day] = Inr [ex_next_day]"
    by (simp add: filtered_range_def range_cond_def ex_dates date_le_def)
  from filters_give_subsequences
         [of _ "[ex_midnight, ex_undated, ex_next_day]" "[ex_next_day]" _
             "Date 2026 2 12" "Date 2026 2 28"] h
  show ?thesis by blast
qed

text \<open>
  C10. A range whose start and end are the same day \<open>d\<close> selects what the exact-day filter
  selects for \<open>d\<close>, and raises when it raises; the whole operation \<^verbatim>\<open>download_range\<close> with
  the same argument twice behaves as \<^verbatim>\<open>download_date\<close> does.
\<close>

theorem one_day_range:
  "filtered_range d d blobs = filtered_date d blobs \<and>
   download_range ev fuel s s dest_dir sas_url sent =
     download_date ev fuel s dest_dir sas_url sent"
  by (simp add: download_range_def download_date_def date_lt_irrefl filtered_range_same
      split: sum.splits prod.splits outcome.splits)

theorem one_day_range_witness:
  "filtered_range (Date 2026 2 11) (Date 2026 2 11)
     [ex_midnight, ex_undated, ex_next_day, ex_evening] = Inr [ex_midnight, ex_evening]"
proof -
  have "filtered_date (Date 2026 2 11) [ex_midnight, ex_undated, ex_next_day, ex_evening]
          = Inr [ex_midnight, ex_evening]"
    by (simp add: filtered_date_def date_cond_def ex_dates)
  with one_day_range [of "Date 2026 2 11" "[ex_midnight, ex_undated, ex_next_day, ex_evening]"]
  show ?thesis by simp
qed

section \<open>Properties of the listing\<close>

lemma loop_step_stop:
  "\<not> goes_on (http_get ev sent (listing_url base params marker)) \<Longrightarrow>
   \<exists>out. list_blobs_loop ev (Suc fuel) base params marker blobs sent =
           (out, sent @ [listing_url base params marker]) \<and> out \<noteq> Timeout \<and>
     (case failure_of (http_get ev sent (listing_url base params marker)) of
        None \<Rightarrow> out = Return (blobs @ page_blobs (http_get ev sent (listing_url base params marker)))
      | Some e \<Rightarrow> out = Raise e)"
  by (auto simp: goes_on_def page_blobs_def failure_of_def Let_def split: response.splits option.splits sum.splits)

lemma loop_step_go:
  "goes_on (http_get ev sent (listing_url base params marker)) \<Longrightarrow>
   list_blobs_loop ev (Suc fuel) base params marker blobs sent =
     list_blobs_loop ev fuel base params
       (marker_of (http_get ev sent (listing_url base params marker)))
       (blobs @ page_blobs (http_get ev sent (listing_url base params marker)))
       (sent @ [listing_url base params marker])"
  by (auto simp: goes_on_def page_blobs_def marker_of_def Let_def split: response.splits option.splits sum.splits)

lemma loop_trace:
  "list_blobs_loop ev fuel base params marker blobs sent = (out, sent') \<Longrightarrow>
   \<exists>new. sent' = sent @ new \<and> length new \<le> fuel \<and>
     (new \<noteq> [] \<longrightarrow> new ! 0 = listing_url base params marker) \<and>
     (\<forall>i. Suc i < length new \<longrightarrow>
        goes_on (http_get ev (sent @ take i new) (new ! i)) \<and>
        new ! Suc i = listing_url base params (marker_of (http_get ev (sent @ take i new) (new ! i)))) \<and>
     (out \<noteq> Timeout \<longrightarrow> new \<noteq> [] \<and> \<not> goes_on (http_get ev (sent @ butlast new) (last new))) \<and>
     (out = Timeout \<longrightarrow> length new = fuel \<and> (new \<noteq> [] \<longrightarrow> goes_on (http_get ev (sent @ butlast new) (last new)))) \<and>
     (\<forall>e. out = Raise e \<longrightarrow> failure_of (http_get ev (sent @ butlast new) (last new)) = Some e) \<and>
     (\<forall>bs. out = Return bs \<longrightarrow>
        failure_of (http_get ev (sent @ butlast new) (last new)) = None \<and>
        bs = blobs @ concat (map (\<lambda>i. page_blobs (http_get ev (sent @ take i new) (new ! i))) [0..<length new]))"
proof (induction fuel arbitrary: marker blobs sent out sent')
  case 0
  then show ?case by simp
next
  case (Suc fuel)
  let ?url = "listing_url base params marker"
  let ?r = "http_get ev sent ?url"
  show ?case
  proof (cases "goes_on ?r")
    case False
    from loop_step_stop[OF False, of fuel blobs] Suc.prems
    obtain o1 where o1: "out = o1" "sent' = sent @ [?url]" "o1 \<noteq> Timeout"
      "case failure_of ?r of None \<Rightarrow> o1 = Return (blobs @ page_blobs ?r) | Some e \<Rightarrow> o1 = Raise e" by auto
    show ?thesis
      apply (rule exI[of _ "[?url]"])
      using o1 False by (auto split: option.splits)
  next
    case True
    from loop_step_go[OF True, of fuel blobs] Suc.prems
    have run: "list_blobs_loop ev fuel base params (marker_of ?r) (blobs @ page_blobs ?r) (sent @ [?url]) = (out, sent')"
      by simp
    from Suc.IH[OF run] obtain new where new:
      "sent' = (sent @ [?url]) @ new" "length new \<le> fuel"
      "new \<noteq> [] \<longrightarrow> new ! 0 = listing_url base params (marker_of ?r)"
      "\<forall>i. Suc i < length new \<longrightarrow>
        goes_on (http_get ev ((sent @ [?url]) @ take i new) (new ! i)) \<and>
        new ! Suc i = listing_url base params (marker_of (http_get ev ((sent @ [?url]) @ take i new) (new ! i)))"
      "out \<noteq> Timeout \<longrightarrow> new \<noteq> [] \<and> \<not> goes_on (http_get ev ((sent @ [?url]) @ butlast new) (last new))"
      "out = Timeout \<longrightarrow> length new = fuel \<and> (new \<noteq> [] \<longrightarrow> goes_on (http_get ev ((sent @ [?url]) @ butlast new) (last new)))"
      "\<forall>e. out = Raise e \<longrightarrow> failure_of (http_get ev ((sent @ [?url]) @ butlast new) (last new)) = Some e"
      "\<forall>bs. out = Return bs \<longrightarrow>
        failure_of (http_get ev ((sent @ [?url]) @ butlast new) (last new)) = None \<and>
        bs = (blobs @ page_blobs ?r) @ concat (map (\<lambda>i. page_blobs (http_get ev ((sent @ [?url]) @ take i new) (new ! i))) [0..<length new])"
      by blast
    let ?new = "?url # new"
    have a: "sent' = sent @ ?new" using new(1) by simp
    have b: "length ?new \<le> Suc fuel" using new(2) by simp
    have c: "?new ! 0 = ?url" by simp
    have d: "goes_on (http_get ev (sent @ take i ?new) (?new ! i)) \<and>
        ?new ! Suc i = listing_url base params (marker_of (http_get ev (sent @ take i ?new) (?new ! i)))"
      if "Suc i < length ?new" for i
    proof (cases i)
      case 0
      with that new(3) True show ?thesis by auto
    next
      case (Suc j)
      with that have "Suc j < length new" by simp
      with new(4) Suc show ?thesis by simp
    qed
    have e: "out \<noteq> Timeout \<longrightarrow> ?new \<noteq> [] \<and> \<not> goes_on (http_get ev (sent @ butlast ?new) (last ?new))"
      using new(5) by auto
    have f: "out = Timeout \<longrightarrow> length ?new = Suc fuel \<and> (?new \<noteq> [] \<longrightarrow> goes_on (http_get ev (sent @ butlast ?new) (last ?new)))"
      using new(6) True by auto
    have h: "\<forall>e. out = Raise e \<longrightarrow> failure_of (http_get ev (sent @ butlast ?new) (last ?new)) = Some e"
      using new(5,7) by auto
    have g0: "failure_of (http_get ev (sent @ butlast ?new) (last ?new)) = None" if "out = Return bs" for bs
      using new(5,8) that by auto
    have g: "bs = blobs @ concat (map (\<lambda>i. page_blobs (http_get ev (sent @ take i ?new) (?new ! i))) [0..<length ?new])"
      if "out = Return bs" for bs
    proof -
      have "[0..<length ?new] = 0 # map Suc [0..<length new]"
        by (simp add: upt_conv_Cons map_Suc_upt del: upt_Suc)
      then show ?thesis using new(8) that by (simp add: comp_def del: upt_Suc)
    qed
    show ?thesis
      apply (rule exI[of _ ?new])
      using a b c d e f g g0 h by blast
  qed
qed



section \<open>Records without a usable timestamp\<close>

lemma absent_date: "\<not> truthy (last_modified b) \<Longrightarrow> blob_modified_date b = Inr None"
  by (auto simp: truthy_def blob_modified_date_def split: option.splits)

lemma raising_date:
  "last_modified b = Some s \<Longrightarrow> s \<noteq> [] \<Longrightarrow> parse_last_modified s = Inl e \<Longrightarrow>
   blob_modified_date b = Inl e"
  by (simp add: blob_modified_date_def)

lemma comprehension_raises:
  "b \<in> set bs \<Longrightarrow> isl (cond b) \<Longrightarrow> isl (comprehension cond bs)"
  by (cases "comprehension cond bs") (auto simp: comprehension_Inr_iff)

lemma download_each_all:
  assumes "download_each ev bs dest_dir sas_url sent = (Return u, sent')"
    and "base_url ev sas_url = Inr base" and "sas_params ev sas_url = Inr params"
  shows "\<exists>names. map name bs = map Some names \<and>
           sent' = sent @ map (\<lambda>n. blob_url base n params) names"
  using assms(1)
proof (induction bs arbitrary: sent)
  case Nil
  then show ?case by simp
next
  case (Cons b bs)
  obtain o1 s1 where d: "download_blob ev (name b) dest_dir sas_url sent = (o1, s1)"
    by (cases "download_blob ev (name b) dest_dir sas_url sent")
  with Cons.prems obtain p where o1: "o1 = Return p"
    by (cases o1) auto
  from d o1 assms(2,3) obtain n where n: "name b = Some n" "s1 = sent @ [blob_url base n params]"
    by (auto simp: download_blob_def split: option.splits response.splits)
  from Cons.prems d o1 have "download_each ev bs dest_dir sas_url s1 = (Return u, sent')" by simp
  from Cons.IH[OF this] obtain names where
    "map name bs = map Some names" "sent' = s1 @ map (\<lambda>n. blob_url base n params) names" by blast
  with n show ?case by (intro exI[of _ "n # names"]) simp
qed

text \<open>
  C1 (as amended). A record whose \<^verbatim>\<open>last_modified\<close> is absent or empty has no normalized
  date, and no date filter that returns a list retains it. A record whose \<^verbatim>\<open>last_modified\<close>
  is a non-empty string that the parser refuses makes the normalization raise, and every
  date filter over a listing that holds it raises too. \<^verbatim>\<open>download_all\<close> looks at no
  timestamp: when it returns, every record of the listing has been requested.
\<close>

theorem record_without_timestamp:
  "(\<not> truthy (last_modified b) \<longrightarrow>
      blob_modified_date b = Inr None \<and>
      (filtered_since cutoff blobs = Inr ys \<or> filtered_date target blobs = Inr ys \<or>
       filtered_range start end_date blobs = Inr ys \<longrightarrow> b \<notin> set ys)) \<and>
   (last_modified b = Some s \<and> s \<noteq> [] \<and> parse_last_modified s = Inl e \<longrightarrow>
      blob_modified_date b = Inl e \<and>
      (b \<in> set blobs \<longrightarrow>
         isl (filtered_since cutoff blobs) \<and> isl (filtered_date target blobs) \<and>
         isl (filtered_range start end_date blobs))) \<and>
   (list_blobs ev fuel sas_url sent = (Return blobs, sent1) \<and>
    download_all ev fuel dest_dir sas_url sent = (Return (), sent2) \<and>
    base_url ev sas_url = Inr base \<and> sas_params ev sas_url = Inr params \<and> b \<in> set blobs \<longrightarrow>
      (\<exists>n. name b = Some n \<and> blob_url base n params \<in> set sent2))"
proof (intro conjI impI)
  assume a: "\<not> truthy (last_modified b)"
  show d: "blob_modified_date b = Inr None" by (rule absent_date[OF a])
  assume "filtered_since cutoff blobs = Inr ys \<or> filtered_date target blobs = Inr ys \<or>
       filtered_range start end_date blobs = Inr ys"
  then show "b \<notin> set ys"
    using d
    by (auto simp: filtered_since_def filtered_date_def filtered_range_def comprehension_Inr_iff
        since_cond_def date_cond_def range_cond_def)
next
  assume a: "last_modified b = Some s \<and> s \<noteq> [] \<and> parse_last_modified s = Inl e"
  then show d: "blob_modified_date b = Inl e" by (simp add: raising_date)
  assume "b \<in> set blobs"
  with d show "isl (filtered_since cutoff blobs)" "isl (filtered_date target blobs)"
      "isl (filtered_range start end_date blobs)"
    by (auto simp: filtered_since_def filtered_date_def filtered_range_def
        since_cond_isl date_cond_isl range_cond_isl intro!: comprehension_raises)
next
  assume a: "list_blobs ev fuel sas_url sent = (Return blobs, sent1) \<and>
    download_all ev fuel dest_dir sas_url sent = (Return (), sent2) \<and>
    base_url ev sas_url = Inr base \<and> sas_params ev sas_url = Inr params \<and> b \<in> set blobs"
  then have "download_each ev blobs dest_dir sas_url sent1 = (Return (), sent2)"
    by (auto simp: download_all_def)
  from download_each_all[OF this] a obtain names where
    names: "map name blobs = map Some names" "sent2 = sent1 @ map (\<lambda>n. blob_url base n params) names"
    by blast
  from a have "name b \<in> set (map name blobs)" by simp
  with names(1) obtain n where "name b = Some n" "n \<in> set names" by auto
  with names(2) show "\<exists>n. name b = Some n \<and> blob_url base n params \<in> set sent2" by auto
qed

theorem record_without_timestamp_witness:
  "\<not> truthy (last_modified ex_undated) \<and>
   filtered_since (Date 2026 2 11) [ex_midnight, ex_undated, ex_next_day] =
     Inr [ex_midnight, ex_next_day] \<and>
   ex_undated \<notin> set [ex_midnight, ex_next_day] \<and>
   last_modified ex_garbled = Some ''not a date'' \<and>
   parse_last_modified ''not a date'' = Inl (ValueError None) \<and>
   isl (filtered_range (Date 2026 2 1) (Date 2026 2 28) [ex_next_day, ex_garbled]) \<and>
   download_all ex_env 5 ''downloads'' ex_scans_url [] =
     (Return (),
      [''https://acct.blob.core.windows.net/scans?restype=container&comp=list&sv=2024&sig=abc'',
       ''https://acct.blob.core.windows.net/scans/c.csv?sv=2024&sig=abc'',
       ''https://acct.blob.core.windows.net/scans/e.csv?sv=2024&sig=abc'']) \<and>
   (\<exists>n. name ex_garbled = Some n \<and>
      blob_url ''https://acct.blob.core.windows.net/scans'' n ''sv=2024&sig=abc'' \<in> set
        [''https://acct.blob.core.windows.net/scans?restype=container&comp=list&sv=2024&sig=abc'',
         ''https://acct.blob.core.windows.net/scans/c.csv?sv=2024&sig=abc'',
         ''https://acct.blob.core.windows.net/scans/e.csv?sv=2024&sig=abc''])"
proof -
  have a: "\<not> truthy (last_modified ex_undated)" by code_simp
  have f: "filtered_since (Date 2026 2 11) [ex_midnight, ex_undated, ex_next_day] =
     Inr [ex_midnight, ex_next_day]"
    by (simp add: filtered_since_def since_cond_def ex_dates date_le_def)
  have g: "last_modified ex_garbled = Some ''not a date''" by code_simp
  have p: "parse_last_modified ''not a date'' = Inl (ValueError None)" by code_simp
  have l: "list_blobs ex_env 5 ex_scans_url [] =
     (Return [ex_next_day, ex_garbled],
      [''https://acct.blob.core.windows.net/scans?restype=container&comp=list&sv=2024&sig=abc''])"
    by code_simp
  have d: "download_all ex_env 5 ''downloads'' ex_scans_url [] =
     (Return (),
      [''https://acct.blob.core.windows.net/scans?restype=container&comp=list&sv=2024&sig=abc'',
       ''https://acct.blob.core.windows.net/scans/c.csv?sv=2024&sig=abc'',
       ''https://acct.blob.core.windows.net/scans/e.csv?sv=2024&sig=abc''])"
    by code_simp
  have bu: "base_url ex_env ex_scans_url = Inr ''https://acct.blob.core.windows.net/scans''"
    by code_simp
  have sp: "sas_params ex_env ex_scans_url = Inr ''sv=2024&sig=abc''" by code_simp
  from record_without_timestamp
         [of ex_undated "Date 2026 2 11" "[ex_midnight, ex_undated, ex_next_day]"
             "[ex_midnight, ex_next_day]"] a f
  have c1: "ex_undated \<notin> set [ex_midnight, ex_next_day]" by blast
  from record_without_timestamp
         [of ex_garbled _ "[ex_next_day, ex_garbled]" _ _ "Date 2026 2 1" "Date 2026 2 28"
             "''not a date''" "ValueError None"] g p
  have c2: "isl (filtered_range (Date 2026 2 1) (Date 2026 2 28) [ex_next_day, ex_garbled])"
    by simp
  from record_without_timestamp
         [of ex_garbled _ "[ex_next_day, ex_garbled]" _ _ _ _ _ _ ex_env 5 ex_scans_url "[]"
             "[''https://acct.blob.core.windows.net/scans?restype=container&comp=list&sv=2024&sig=abc'']"
             "''downloads''"
             "[''https://acct.blob.core.windows.net/scans?restype=container&comp=list&sv=2024&sig=abc'',
               ''https://acct.blob.core.windows.net/scans/c.csv?sv=2024&sig=abc'',
               ''https://acct.blob.core.windows.net/scans/e.csv?sv=2024&sig=abc'']"
             "''https://acct.blob.core.windows.net/scans''" "''sv=2024&sig=abc''"] l d bu sp
  have c3: "\<exists>n. name ex_garbled = Some n \<and>
      blob_url ''https://acct.blob.core.windows.net/scans'' n ''sv=2024&sig=abc'' \<in> set
        [''https://acct.blob.core.windows.net/scans?restype=container&comp=list&sv=2024&sig=abc'',
         ''https://acct.blob.core.windows.net/scans/c.csv?sv=2024&sig=abc'',
         ''https://acct.blob.core.windows.net/scans/e.csv?sv=2024&sig=abc'']"
    by simp
  from a f g p d c1 c2 c3 show ?thesis by blast
qed

text \<open>
  C1 as stated fails for a timestamp that is not a date: the normalization raises
  \<^verbatim>\<open>ValueError\<close> instead of yielding \<^verbatim>\<open>None\<close>, and \<^verbatim>\<open>download_since\<close> ends with that
  exception after the listing, without a download.
\<close>

theorem garbled_timestamp_aborts:
  "last_modified ex_garbled = Some ''not a date'' \<and>
   blob_modified_date ex_garbled = Inl (ValueError None) \<and>
   list_blobs ex_env 5 ex_scans_url [] =
     (Return [ex_next_day, ex_garbled],
      [''https://acct.blob.core.windows.net/scans?restype=container&comp=list&sv=2024&sig=abc'']) \<and>
   download_since ex_env 5 ''2026-02-12'' ''downloads'' ex_scans_url [] =
     (Raise (ValueError None),
      [''https://acct.blob.core.windows.net/scans?restype=container&comp=list&sv=2024&sig=abc''])"
  by code_simp

section \<open>Validation of the date arguments\<close>

lemma download_blob_extends:
  "download_blob ev n dest_dir sas_url sent = (out, sent') \<Longrightarrow> \<exists>more. sent' = sent @ more"
  by (auto simp: download_blob_def split: sum.splits option.splits response.splits)

lemma download_each_extends:
  "download_each ev bs dest_dir sas_url sent = (out, sent') \<Longrightarrow> \<exists>more. sent' = sent @ more"
proof (induction bs arbitrary: sent)
  case Nil
  then show ?case by simp
next
  case (Cons b bs)
  obtain o1 s1 where d: "download_blob ev (name b) dest_dir sas_url sent = (o1, s1)"
    by (cases "download_blob ev (name b) dest_dir sas_url sent")
  from download_blob_extends[OF d] obtain m1 where m1: "s1 = sent @ m1" by blast
  show ?case
  proof (cases o1)
    case (Return p)
    with Cons.prems d have "download_each ev bs dest_dir sas_url s1 = (out, sent')" by simp
    from Cons.IH[OF this] m1 show ?thesis by auto
  next
    case (Raise e)
    with Cons.prems d m1 show ?thesis by auto
  next
    case Timeout
    with Cons.prems d m1 show ?thesis by auto
  qed
qed

lemma list_blobs_first_request:
  assumes "base_url ev sas_url = Inr base" "sas_params ev sas_url = Inr params" "0 < fuel"
    and run: "list_blobs ev fuel sas_url sent = (out, sent')"
  shows "\<exists>rest. sent' = sent @ listing_url base params None # rest"
proof -
  from assms have loop: "list_blobs_loop ev fuel base params None [] sent = (out, sent')"
    by (simp add: list_blobs_def)
  from loop_trace[OF loop] obtain new where new: "sent' = sent @ new"
    "new \<noteq> [] \<longrightarrow> new ! 0 = listing_url base params None"
    "out \<noteq> Timeout \<longrightarrow> new \<noteq> []" "out = Timeout \<longrightarrow> length new = fuel" by blast
  from new(3,4) \<open>0 < fuel\<close> have "new \<noteq> []" by (cases "out = Timeout") auto
  with new(2) have "new = listing_url base params None # tl new" by (cases new) auto
  with new(1) show ?thesis by metis
qed

lemma date_le_iff_not_lt: "date_le a b \<longleftrightarrow> \<not> date_lt b a"
  by (auto simp: date_le_def date_lt_def)

text \<open>
  C5. With two dates that parse, \<^verbatim>\<open>download_range\<close> raises the validation error without
  sending a request when the end is before the start; otherwise it goes on to the listing,
  and sends the first listing request when the access URL parses.
\<close>

theorem range_validation:
  assumes start_ok: "parse_yyyy_mm_dd start_date = Inr start"
    and end_ok: "parse_yyyy_mm_dd end_date = Inr end_d"
  shows "(date_lt end_d start \<longrightarrow>
            download_range ev fuel start_date end_date dest_dir sas_url sent =
              (Raise (ValueError (Some end_before_start_message)), sent)) \<and>
         (date_le start end_d \<longrightarrow>
            download_range ev fuel start_date end_date dest_dir sas_url sent =
              (case list_blobs ev fuel sas_url sent of
                 (Return blobs, sent') \<Rightarrow>
                   (case filtered_range start end_d blobs of
                      Inl e \<Rightarrow> (Raise e, sent')
                    | Inr filtered \<Rightarrow> download_filtered ev filtered dest_dir sas_url sent')
               | (Raise e, sent') \<Rightarrow> (Raise e, sent')
               | (Timeout, sent') \<Rightarrow> (Timeout, sent')) \<and>
            (\<forall>base params. base_url ev sas_url = Inr base \<and> sas_params ev sas_url = Inr params \<and>
               0 < fuel \<longrightarrow>
               (\<exists>rest. snd (download_range ev fuel start_date end_date dest_dir sas_url sent) =
                         sent @ listing_url base params None # rest)))"
proof (intro conjI impI allI)
  assume "date_lt end_d start"
  then show "download_range ev fuel start_date end_date dest_dir sas_url sent =
              (Raise (ValueError (Some end_before_start_message)), sent)"
    using start_ok end_ok by (simp add: download_range_def)
next
  assume le: "date_le start end_d"
  then show eq: "download_range ev fuel start_date end_date dest_dir sas_url sent =
              (case list_blobs ev fuel sas_url sent of
                 (Return blobs, sent') \<Rightarrow>
                   (case filtered_range start end_d blobs of
                      Inl e \<Rightarrow> (Raise e, sent')
                    | Inr filtered \<Rightarrow> download_filtered ev filtered dest_dir sas_url sent')
               | (Raise e, sent') \<Rightarrow> (Raise e, sent')
               | (Timeout, sent') \<Rightarrow> (Timeout, sent'))"
    using start_ok end_ok by (simp add: download_range_def date_le_iff_not_lt)
  fix base params
  assume h: "base_url ev sas_url = Inr base \<and> sas_params ev sas_url = Inr params \<and> 0 < fuel"
  obtain o1 s1 where run: "list_blobs ev fuel sas_url sent = (o1, s1)"
    by (cases "list_blobs ev fuel sas_url sent")
  from list_blobs_first_request[OF _ _ _ run] h
  obtain rest where rest: "s1 = sent @ listing_url base params None # rest" by blast
  show "\<exists>rest. snd (download_range ev fuel start_date end_date dest_dir sas_url sent) =
                         sent @ listing_url base params None # rest"
  proof (cases o1)
    case (Return blobs)
    show ?thesis
    proof (cases "filtered_range start end_d blobs")
      case (Inl e)
      with eq run Return rest show ?thesis by simp
    next
      case (Inr filtered)
      obtain o2 s2 where d: "download_each ev filtered dest_dir sas_url s1 = (o2, s2)"
        by (cases "download_each ev filtered dest_dir sas_url s1")
      from download_each_extends[OF d] obtain more where "s2 = s1 @ more" by blast
      with eq run Return Inr d rest show ?thesis by (simp add: download_filtered_def)
    qed
  next
    case (Raise e)
    with eq run rest show ?thesis by simp
  next
    case Timeout
    with eq run rest show ?thesis by simp
  qed
qed

theorem range_validation_witness:
  "parse_yyyy_mm_dd ''2026-02-03'' = Inr (Date 2026 2 3) \<and>
   parse_yyyy_mm_dd ''2026-02-01'' = Inr (Date 2026 2 1) \<and>
   date_lt (Date 2026 2 1) (Date 2026 2 3) \<and>
   download_range ex_env 5 ''2026-02-03'' ''2026-02-01'' ''downloads'' ex_sas_url [] =
     (Raise (ValueError (Some end_before_start_message)), []) \<and>
   date_le (Date 2026 2 1) (Date 2026 2 3) \<and>
   base_url ex_env ex_sas_url = Inr ''https://acct.blob.core.windows.net/reports'' \<and>
   sas_params ex_env ex_sas_url = Inr ''sv=2024&sig=abc'' \<and>
   (\<exists>rest. snd (download_range ex_env 5 ''2026-02-01'' ''2026-02-03'' ''downloads'' ex_sas_url []) =
      [] @ listing_url ''https://acct.blob.core.windows.net/reports'' ''sv=2024&sig=abc'' None # rest)"
proof -
  have s: "parse_yyyy_mm_dd ''2026-02-03'' = Inr (Date 2026 2 3)" by code_simp
  have e: "parse_yyyy_mm_dd ''2026-02-01'' = Inr (Date 2026 2 1)" by code_simp
  have lt: "date_lt (Date 2026 2 1) (Date 2026 2 3)" by (simp add: date_lt_def)
  have le: "date_le (Date 2026 2 1) (Date 2026 2 3)" by (simp add: date_le_def)
  have bu: "base_url ex_env ex_sas_url = Inr ''https://acct.blob.core.windows.net/reports''"
    by code_simp
  have sp: "sas_params ex_env ex_sas_url = Inr ''sv=2024&sig=abc''" by code_simp
  from range_validation [OF s e, of ex_env 5 "''downloads''" ex_sas_url "[]"] lt
  have c1: "download_range ex_env 5 ''2026-02-03'' ''2026-02-01'' ''downloads'' ex_sas_url [] =
     (Raise (ValueError (Some end_before_start_message)), [])"
    by blast
  have pos: "(0::nat) < 5" by simp
  from range_validation [OF e s, of ex_env 5 "''downloads''" ex_sas_url "[]"] le bu sp pos
  have c2: "\<exists>rest. snd (download_range ex_env 5 ''2026-02-01'' ''2026-02-03'' ''downloads'' ex_sas_url []) =
      [] @ listing_url ''https://acct.blob.core.windows.net/reports'' ''sv=2024&sig=abc'' None # rest"
    by blast
  from s e lt le bu sp c1 c2 show ?thesis by blast
qed

lemma digit_val_range: "0 \<le> digit_val c \<and> digit_val c \<le> 9"
proof -
  have "find_char c ''0123456789'' = Some i \<Longrightarrow> i \<le> 9" for i
    by (auto split: if_splits)
  then show ?thesis by (auto simp: digit_val_def split: option.splits)
qed

lemma foldl_digits_bound:
  "0 \<le> a \<Longrightarrow> 0 \<le> foldl (\<lambda>a c. 10 * a + digit_val c) a ds \<and>
     foldl (\<lambda>a c. 10 * a + digit_val c) a ds < (a + 1) * 10 ^ length ds"
proof (induction ds arbitrary: a)
  case Nil
  then show ?case by simp
next
  case (Cons c ds)
  from digit_val_range[of c] Cons.prems have a': "0 \<le> 10 * a + digit_val c" by simp
  from Cons.IH[OF a'] have
    "0 \<le> foldl (\<lambda>a c. 10 * a + digit_val c) (10 * a + digit_val c) ds"
    "foldl (\<lambda>a c. 10 * a + digit_val c) (10 * a + digit_val c) ds < (10 * a + digit_val c + 1) * 10 ^ length ds"
    by auto
  note this(2)
  moreover have "(10 * a + digit_val c + 1) * 10 ^ length ds \<le> (a + 1) * 10 ^ length (c # ds)"
  proof -
    have "10 * a + digit_val c + 1 \<le> (a + 1) * 10" using digit_val_range[of c] by simp
    then have "(10 * a + digit_val c + 1) * 10 ^ length ds \<le> ((a + 1) * 10) * 10 ^ length ds"
      by (intro mult_right_mono) auto
    then show ?thesis by (simp add: mult.assoc)
  qed
  ultimately have "foldl (\<lambda>a c. 10 * a + digit_val c) (10 * a + digit_val c) ds
      < (a + 1) * 10 ^ length (c # ds)"
    by (rule less_le_trans)
  with \<open>0 \<le> foldl (\<lambda>a c. 10 * a + digit_val c) (10 * a + digit_val c) ds\<close>
  show ?case by simp
qed

lemma py_int_bound:
  assumes "py_int s = Some n"
  shows "\<bar>n\<bar> < 10 ^ length s"
proof -
  define t where "t = rev (dropWhile int_space (rev (dropWhile int_space s)))"
  define body where "body = (if t \<noteq> [] \<and> (hd t = CHR ''-'' \<or> hd t = CHR ''+'') then tl t else t)"
  define ds where "ds = filter is_decimal body"
  define v where "v = foldl (\<lambda>a c. 10 * a + digit_val c) 0 ds"
  have lt: "length t \<le> length s"
    unfolding t_def using length_dropWhile_le[of int_space "rev (dropWhile int_space s)"]
      length_dropWhile_le[of int_space s] by simp
  have "length body \<le> length t" by (simp add: body_def)
  moreover have "length ds \<le> length body" by (simp add: ds_def)
  ultimately have len: "length ds \<le> length s" using lt by simp
  from foldl_digits_bound[of 0 ds] have v: "0 \<le> v" "v < 10 ^ length ds" by (auto simp: v_def)
  have "(10::int) ^ length ds \<le> 10 ^ length s" using len by (simp add: power_increasing)
  with v(2) have vb: "v < 10 ^ length s" by (rule less_le_trans)
  from assms have "n = v \<or> n = - v"
    by (auto simp: py_int_def Let_def t_def[symmetric] body_def[symmetric] ds_def[symmetric] v_def[symmetric]
        split: if_splits)
  with v vb show ?thesis by auto
qed

lemma re_match_lengths:
  assumes "re_match_Y_m_d s = Some (Y, m, d, rest)"
  shows "length Y \<le> 4 \<and> length m \<le> 2 \<and> length d \<le> 2"
proof -
  define L where "L = concat (map (\<lambda>(Y, r1). case re_dash r1 of None \<Rightarrow> [] | Some r2 \<Rightarrow>
             concat (map (\<lambda>(m, r3). case re_dash r3 of None \<Rightarrow> [] | Some r4 \<Rightarrow>
               map (\<lambda>(d, r5). (Y, m, d, r5)) (re_d r4)) (re_m r2))) (re_Y s))"
  have "re_match_Y_m_d s = (case L of [] \<Rightarrow> None | found # _ \<Rightarrow> Some found)"
    unfolding re_match_Y_m_d_def L_def ..
  with assms have "(Y, m, d, rest) \<in> set L" by (cases L) auto
  then obtain r1 r2 r3 r4 where
    "(Y, r1) \<in> set (re_Y s)" "(m, r3) \<in> set (re_m r2)" "(d, rest) \<in> set (re_d r4)"
    by (fastforce simp: L_def split: option.splits)
  then show ?thesis
    by (auto simp: re_Y_def re_m_def re_d_def split: if_splits)
qed

lemma strptime_only_ValueError:
  assumes "strptime_Y_m_d v = Inl e"
  shows "e = ValueError None"
proof (cases "re_match_Y_m_d v")
  case None
  with assms show ?thesis by (simp add: strptime_Y_m_d_def)
next
  case (Some found)
  obtain Y m d rest where f: "found = (Y, m, d, rest)" by (cases found) auto
  show ?thesis
  proof (cases "rest \<noteq> [] \<or> py_int Y = None \<or> py_int m = None \<or> py_int d = None")
    case True
    with assms Some f show ?thesis by (auto simp: strptime_Y_m_d_def split: option.splits)
  next
    case False
    then obtain y mo dy where ints: "py_int Y = Some y" "py_int m = Some mo" "py_int d = Some dy"
      and rest: "rest = []" by auto
    from re_match_lengths[OF Some[unfolded f]] have l: "length Y \<le> 4" "length m \<le> 2" "length d \<le> 2"
      by auto
    have "\<bar>y\<bar> < 10 ^ 4"
      using py_int_bound[OF ints(1)] power_increasing[OF l(1), of "10::int"] by simp
    moreover have "\<bar>mo\<bar> < 10 ^ 2"
      using py_int_bound[OF ints(2)] power_increasing[OF l(2), of "10::int"] by simp
    moreover have "\<bar>dy\<bar> < 10 ^ 2"
      using py_int_bound[OF ints(3)] power_increasing[OF l(3), of "10::int"] by simp
    ultimately have ok: "c_int_ok y" "c_int_ok mo" "c_int_ok dy" by (auto simp: c_int_ok_def)
    from assms Some f ints rest have "new_date y mo dy = Inl e" by (simp add: strptime_Y_m_d_def)
    with ok show ?thesis by (auto simp: new_date_def split: if_splits)
  qed
qed

lemma parse_yyyy_mm_dd_error:
  "isl (strptime_Y_m_d v) \<Longrightarrow> parse_yyyy_mm_dd v = Inl (ValueError (Some (invalid_date_message v)))"
  by (cases "strptime_Y_m_d v") (auto simp: parse_yyyy_mm_dd_def dest: strptime_only_ValueError)

lemma parse_yyyy_mm_dd_ok:
  "strptime_Y_m_d v = Inr d \<Longrightarrow> parse_yyyy_mm_dd v = Inr d"
  by (simp add: parse_yyyy_mm_dd_def)

lemma message_names_value: "sublist v (invalid_date_message v)"
  unfolding invalid_date_message_def sublist_def by (metis append.assoc)

text \<open>
  C6 (as amended). When \<^verbatim>\<open>strptime\<close> with the format \<^verbatim>\<open>%Y-%m-%d\<close> refuses a date argument,
  each date-scoped operation raises a \<^verbatim>\<open>ValueError\<close> whose message holds the argument, and
  sends no request: \<^verbatim>\<open>download_since\<close>, \<^verbatim>\<open>download_date\<close>, and \<^verbatim>\<open>download_range\<close> for its
  start date, and for its end date when the start date parses.
\<close>

theorem malformed_date_argument:
  assumes bad: "isl (strptime_Y_m_d v)"
  shows "sublist v (invalid_date_message v) \<and>
     download_since ev fuel v dest_dir sas_url sent =
       (Raise (ValueError (Some (invalid_date_message v))), sent) \<and>
     download_date ev fuel v dest_dir sas_url sent =
       (Raise (ValueError (Some (invalid_date_message v))), sent) \<and>
     download_range ev fuel v other dest_dir sas_url sent =
       (Raise (ValueError (Some (invalid_date_message v))), sent) \<and>
     (\<not> isl (strptime_Y_m_d other) \<longrightarrow>
        download_range ev fuel other v dest_dir sas_url sent =
          (Raise (ValueError (Some (invalid_date_message v))), sent))"
proof -
  note e = parse_yyyy_mm_dd_error[OF bad]
  have "download_range ev fuel other v dest_dir sas_url sent =
          (Raise (ValueError (Some (invalid_date_message v))), sent)"
    if "\<not> isl (strptime_Y_m_d other)"
  proof -
    from that obtain d where "strptime_Y_m_d other = Inr d" by (cases "strptime_Y_m_d other") auto
    from parse_yyyy_mm_dd_ok[OF this] e show ?thesis by (simp add: download_range_def)
  qed
  with e message_names_value show ?thesis
    by (simp add: download_since_def download_date_def download_range_def)
qed

theorem malformed_date_argument_witness:
  "isl (strptime_Y_m_d ''02-11-2026'') \<and>
   sublist ''02-11-2026'' (invalid_date_message ''02-11-2026'') \<and>
   download_date ex_env 5 ''02-11-2026'' ''downloads'' ex_sas_url [] =
     (Raise (ValueError (Some (invalid_date_message ''02-11-2026''))), []) \<and>
   \<not> isl (strptime_Y_m_d ''2026-02-11'') \<and>
   download_range ex_env 5 ''2026-02-11'' ''02-11-2026'' ''downloads'' ex_sas_url [] =
     (Raise (ValueError (Some (invalid_date_message ''02-11-2026''))), [])"
proof -
  have bad: "isl (strptime_Y_m_d ''02-11-2026'')" by code_simp
  have good: "\<not> isl (strptime_Y_m_d ''2026-02-11'')" by code_simp
  from malformed_date_argument [OF bad, of ex_env 5 "''downloads''" ex_sas_url "[]" "''2026-02-11''"]
    bad good
  show ?thesis by blast
qed

text \<open>
  C6 as stated fails for an argument whose month and day are written with one digit: it
  is not of the form \<^verbatim>\<open>YYYY-MM-DD\<close>, yet \<^verbatim>\<open>strptime\<close> accepts it and the operation goes on to
  the listing and the downloads.
\<close>

theorem short_date_argument_accepted:
  "\<not> spec_yyyy_mm_dd ''2026-2-3'' \<and>
   parse_yyyy_mm_dd ''2026-2-3'' = Inr (Date 2026 2 3) \<and>
   download_since ex_env 5 ''2026-2-3'' ''downloads'' ex_sas_url [] =
     (Return (),
      [''https://acct.blob.core.windows.net/reports?restype=container&comp=list&sv=2024&sig=abc'',
       ''https://acct.blob.core.windows.net/reports?restype=container&comp=list&sv=2024&sig=abc&marker=m1'',
       ''https://acct.blob.core.windows.net/reports/a.csv?sv=2024&sig=abc'',
       ''https://acct.blob.core.windows.net/reports/b.csv?sv=2024&sig=abc'',
       ''https://acct.blob.core.windows.net/reports/c.csv?sv=2024&sig=abc''])"
  by code_simp

section \<open>The access URL and its token\<close>

lemma find_char_Some:
  "find_char c xs = Some i \<Longrightarrow> xs = take i xs @ c # drop (Suc i) xs \<and> c \<notin> set (take i xs)"
proof (induction xs arbitrary: i)
  case Nil
  then show ?case by simp
next
  case (Cons x xs)
  show ?case
  proof (cases "x = c")
    case True
    with Cons.prems show ?thesis by simp
  next
    case False
    with Cons.prems obtain j where j: "find_char c xs = Some j" "i = Suc j" by auto
    from Cons.IH[OF j(1)] j(2) False show ?thesis by auto
  qed
qed

lemma find_char_None: "find_char c xs = None \<longleftrightarrow> c \<notin> set xs"
  by (induction xs) auto


lemma spec_query_prefix:
  "\<forall>c \<in> set pre. c \<noteq> CHR ''?'' \<and> c \<noteq> CHR ''#'' \<Longrightarrow>
   spec_query_string (pre @ z) = spec_query_string z"
  by (simp add: spec_query_string_def takeWhile_append2 dropWhile_append2)

lemma scheme_chars_no_delim:
  "c \<in> set scheme_chars \<Longrightarrow> c \<noteq> CHR ''?'' \<and> c \<noteq> CHR ''#'' \<and> c \<noteq> CHR '':'' \<and> c \<noteq> CHR ''/''"
  by (auto simp: scheme_chars_def ascii_letters_def)

lemma split_scheme_cases:
  assumes "split_scheme url = (sch, rest)"
  shows "(sch = [] \<and> rest = url) \<or>
         (\<exists>S. S \<noteq> [] \<and> url = S @ CHR '':'' # rest \<and> sch = lower S \<and>
              hd S \<in> set ascii_letters \<and> (\<forall>c \<in> set S. c \<in> set scheme_chars))"
proof (cases "find_char CHR '':'' url")
  case None
  with assms show ?thesis by (simp add: split_scheme_def)
next
  case (Some i)
  show ?thesis
  proof (cases i)
    case 0
    with Some assms show ?thesis by (simp add: split_scheme_def)
  next
    case (Suc k)
    from find_char_Some[OF Some] Suc
    have dec: "url = take (Suc k) url @ CHR '':'' # drop (Suc (Suc k)) url" by simp
    then have ne: "take (Suc k) url \<noteq> []" by (cases url) auto
    show ?thesis
    proof (cases "hd url \<in> set ascii_letters \<and> list_all (\<lambda>c. c \<in> set scheme_chars) (take (Suc k) url)")
      case True
      with Some Suc assms have r: "sch = lower (take (Suc k) url)" "rest = drop (Suc (Suc k)) url"
        by (auto simp: split_scheme_def)
      have "hd (take (Suc k) url) = hd url" by (cases url) auto
      with True r dec ne show ?thesis
        by (intro disjI2 exI[of _ "take (Suc k) url"]) (auto simp: list_all_iff)
    next
      case False
      with Some Suc assms show ?thesis by (auto simp: split_scheme_def)
    qed
  qed
qed

lemma unsafe_is_c0: "unsafe_url_byte c \<Longrightarrow> c0_control_or_space c"
  by (auto simp: unsafe_url_byte_def c0_control_or_space_def)

lemma c0_not_delim: "c0_control_or_space c \<Longrightarrow> c \<noteq> CHR ''?'' \<and> c \<noteq> CHR ''#''"
  by (auto simp: c0_control_or_space_def)

lemma spec_query_lstrip:
  "spec_query_string (dropWhile c0_control_or_space url) = spec_query_string url"
proof -
  have "url = takeWhile c0_control_or_space url @ dropWhile c0_control_or_space url" by simp
  moreover have "\<forall>c \<in> set (takeWhile c0_control_or_space url). c \<noteq> CHR ''?'' \<and> c \<noteq> CHR ''#''"
    using c0_not_delim by (auto dest: set_takeWhileD)
  ultimately show ?thesis using spec_query_prefix by metis
qed

lemma netloc_no_delim:
  "\<forall>c \<in> set (takeWhile (\<lambda>c. \<not> netloc_delim c) xs). c \<noteq> CHR ''?'' \<and> c \<noteq> CHR ''#''"
  by (auto dest!: set_takeWhileD simp: netloc_delim_def)

lemma urlsplit_query:
  assumes clean: "\<forall>c \<in> set url0. \<not> unsafe_url_byte c"
    and ok: "urlsplit ev url0 = Inr (sch, netloc, path, query, frag)"
  shows "query = spec_query_string url0"
proof -
  define url where "url = dropWhile c0_control_or_space url0"
  have f: "filter (\<lambda>c. \<not> unsafe_url_byte c) url = url"
    using clean by (auto simp: url_def filter_id_conv dest: set_dropWhileD)
  obtain s1 u1 where ss: "split_scheme url = (s1, u1)" by (cases "split_scheme url")
  obtain n2 u2 where nl: "(if take 2 u1 = ''//'' then splitnetloc u1 else ([], u1)) = (n2, u2)"
    by (cases "if take 2 u1 = ''//'' then splitnetloc u1 else ([], u1)")
  from ok have q: "query = snd (split_first CHR ''?'' (fst (split_first CHR ''#'' u2)))"
    by (auto simp: urlsplit_def Let_def url_def[symmetric] f ss nl split: if_splits prod.splits)
  then have q2: "query = spec_query_string u2"
    by (simp add: split_first_def spec_query_string_def)
  have "spec_query_string u1 = spec_query_string u2"
  proof (cases "take 2 u1 = ''//''")
    case True
    with nl have n2: "n2 = takeWhile (\<lambda>c. \<not> netloc_delim c) (drop 2 u1)"
      "u2 = dropWhile (\<lambda>c. \<not> netloc_delim c) (drop 2 u1)" by (auto simp: splitnetloc_def)
    have "u1 = ''//'' @ n2 @ u2" using True n2 by (metis append_take_drop_id takeWhile_dropWhile_id)
    moreover have "\<forall>c \<in> set (''//'' @ n2). c \<noteq> CHR ''?'' \<and> c \<noteq> CHR ''#''"
      using netloc_no_delim[of "drop 2 u1"] n2(1) by auto
    ultimately show ?thesis using spec_query_prefix[of "''//'' @ n2" u2] by simp
  next
    case False
    with nl show ?thesis by simp
  qed
  moreover have "spec_query_string url = spec_query_string u1"
  proof -
    from split_scheme_cases[OF ss] show ?thesis
    proof
      assume "s1 = [] \<and> u1 = url" then show ?thesis by simp
    next
      assume "\<exists>S. S \<noteq> [] \<and> url = S @ CHR '':'' # u1 \<and> s1 = lower S \<and>
              hd S \<in> set ascii_letters \<and> (\<forall>c \<in> set S. c \<in> set scheme_chars)"
      then obtain S where S: "url = (S @ '':'') @ u1" "\<forall>c \<in> set S. c \<in> set scheme_chars" by auto
      have "\<forall>c \<in> set (S @ '':''). c \<noteq> CHR ''?'' \<and> c \<noteq> CHR ''#''"
        using S(2) scheme_chars_no_delim by auto
      from spec_query_prefix[OF this, of u1] S(1) show ?thesis by simp
    qed
  qed
  ultimately show ?thesis using q2 spec_query_lstrip[of url0] by (simp add: url_def)
qed

lemma urlparse_query:
  assumes "\<forall>c \<in> set url0. \<not> unsafe_url_byte c" "urlparse ev url0 = Inr p"
  shows "pr_query p = spec_query_string url0"
proof -
  from assms(2) obtain sch netloc path query frag where
    sp: "urlsplit ev url0 = Inr (sch, netloc, path, query, frag)" and "pr_query p = query"
    by (auto simp: urlparse_def split: sum.splits prod.splits if_splits)
  with urlsplit_query[OF assms(1) sp] show ?thesis by simp
qed
















section \<open>The calendar, and the date of a timestamp\<close>

lemma month_day_table:
  "\<forall>r \<in> set [0..364]. \<forall>L \<in> set [False, True].
     (let m = (r + 50) div 32;
          preceding = DAYS_BEFORE_MONTH ! nat m + (if m > 2 \<and> L then 1 else 0);
          m' = (if preceding > r then m - 1 else m);
          preceding' = (if preceding > r
                        then preceding - (DAYS_IN_MONTH ! nat m' + (if m' = 2 \<and> L then 1 else 0))
                        else preceding)
      in 1 \<le> m' \<and> m' \<le> 12 \<and>
         preceding' = DAYS_BEFORE_MONTH ! nat m' + (if m' > 2 \<and> L then 1 else 0) \<and>
         1 \<le> r - preceding' + 1 \<and> r - preceding' + 1 \<le> 31 \<and>
         r - preceding' + 1 \<le> (if m' = 2 \<and> L then 29 else DAYS_IN_MONTH ! nat m'))"
  by code_simp

lemma div_mod_digit:
  fixes m a k :: int
  assumes "0 \<le> k" "k < m"
  shows "(m * a + k) div m = a" "(m * a + k) mod m = k"
  using assms by (simp_all add: div_pos_pos_trivial mod_pos_pos_trivial)

lemma is_leap_digits:
  assumes "0 \<le> b" "b \<le> 3" "0 \<le> c" "c \<le> 24" "0 \<le> e" "e \<le> 3"
  shows "is_leap (400 * a + 100 * b + 4 * c + e + 1) \<longleftrightarrow> e = 3 \<and> (c \<noteq> 24 \<or> b = 3)"
proof (cases "e = 3")
  case False
  with assms have e: "0 \<le> e + 1" "e + 1 < 4" by auto
  have y: "400 * a + 100 * b + 4 * c + e + 1 = 4 * (100 * a + 25 * b + c) + (e + 1)" by simp
  have "(400 * a + 100 * b + 4 * c + e + 1) mod 4 = e + 1"
    unfolding y by (rule div_mod_digit(2)[OF e])
  with False assms show ?thesis by (simp add: is_leap_def)
next
  case True
  have y4: "400 * a + 100 * b + 4 * c + e + 1 = 4 * (100 * a + 25 * b + c + 1) + 0"
    using True by simp
  have m4: "(400 * a + 100 * b + 4 * c + e + 1) mod 4 = 0"
    unfolding y4 by (rule div_mod_digit(2)) simp_all
  show ?thesis
  proof (cases "c = 24")
    case False
    with assms have k: "0 \<le> 4 * c + 4" "4 * c + 4 < 100" by auto
    have y: "400 * a + 100 * b + 4 * c + e + 1 = 100 * (4 * a + b) + (4 * c + 4)"
      using True by simp
    have "(400 * a + 100 * b + 4 * c + e + 1) mod 100 = 4 * c + 4"
      unfolding y by (rule div_mod_digit(2)[OF k])
    with k assms False True m4 show ?thesis by (simp add: is_leap_def)
  next
    case c: True
    have y100: "400 * a + 100 * b + 4 * c + e + 1 = 100 * (4 * a + b + 1) + 0"
      using True c by simp
    have m100: "(400 * a + 100 * b + 4 * c + e + 1) mod 100 = 0"
      unfolding y100 by (rule div_mod_digit(2)) simp_all
    show ?thesis
    proof (cases "b = 3")
      case False
      with assms have k: "0 \<le> 100 * (b + 1)" "100 * (b + 1) < 400" by auto
      have y: "400 * a + 100 * b + 4 * c + e + 1 = 400 * a + 100 * (b + 1)"
        using True c by simp
      have "(400 * a + 100 * b + 4 * c + e + 1) mod 400 = 100 * (b + 1)"
        unfolding y by (rule div_mod_digit(2)[OF k])
      with assms False True c m4 m100 show ?thesis by (simp add: is_leap_def)
    next
      case b: True
      have y400: "400 * a + 100 * b + 4 * c + e + 1 = 400 * (a + 1) + 0"
        using True c b by simp
      have "(400 * a + 100 * b + 4 * c + e + 1) mod 400 = 0"
        unfolding y400 by (rule div_mod_digit(2)) simp_all
      with True c b m4 m100 show ?thesis by (simp add: is_leap_def)
    qed
  qed
qed

lemma dby_digits:
  assumes "0 \<le> b" "b \<le> 3" "0 \<le> c" "c \<le> 24" "0 \<le> e" "e \<le> 3"
  shows "days_before_year (400 * a + 100 * b + 4 * c + e + 1) =
           146097 * a + 36524 * b + 1461 * c + 365 * e"
proof -
  have d4: "(400 * a + 100 * b + 4 * c + e) div 4 = 100 * a + 25 * b + c"
    using assms div_mod_digit(1)[of e 4 "100 * a + 25 * b + c"] by (simp add: algebra_simps)
  have d100: "(400 * a + 100 * b + 4 * c + e) div 100 = 4 * a + b"
    using assms div_mod_digit(1)[of "4 * c + e" 100 "4 * a + b"] by (simp add: algebra_simps)
  have d400: "(400 * a + 100 * b + 4 * c + e) div 400 = a"
    using assms div_mod_digit(1)[of "100 * b + 4 * c + e" 400 a] by (simp add: algebra_simps)
  show ?thesis by (simp add: days_before_year_def Let_def d4 d100 d400)
qed

lemma ord2ymd_digits:
  assumes "0 \<le> 36524 * b + (1461 * c + (365 * e + r))" "36524 * b + (1461 * c + (365 * e + r)) < 146097"
    and "0 \<le> 1461 * c + (365 * e + r)" "1461 * c + (365 * e + r) < 36524"
    and "0 \<le> 365 * e + r" "365 * e + r < 1461"
    and "0 \<le> r" "r < 365"
  shows "ord2ymd (146097 * a + (36524 * b + (1461 * c + (365 * e + r))) + 1) =
     (if e = 4 \<or> b = 4 then Date (400 * a + 1 + b * 100 + c * 4 + e - 1) 12 31
      else
        let leapyear = (e = 3 \<and> (c \<noteq> 24 \<or> b = 3));
            m = (r + 50) div 32;
            preceding = DAYS_BEFORE_MONTH ! nat m + (if m > 2 \<and> leapyear then 1 else 0);
            m' = (if preceding > r then m - 1 else m);
            preceding' =
              (if preceding > r
               then preceding - (DAYS_IN_MONTH ! nat m' + (if m' = 2 \<and> leapyear then 1 else 0))
               else preceding)
        in Date (400 * a + 1 + b * 100 + c * 4 + e) m' (r - preceding' + 1))"
proof -
  note d1 = div_mod_digit[OF assms(1,2), of a]
  note d2 = div_mod_digit[OF assms(3,4), of b]
  note d3 = div_mod_digit[OF assms(5,6), of c]
  note d4 = div_mod_digit[OF assms(7,8), of e]
  show ?thesis
    unfolding ord2ymd_def DI400Y_def DI100Y_def DI4Y_def Let_def
    by (simp only: add_diff_cancel_right' d1 d2 d3 d4 mult.commute[of _ "400::int"])
qed

lemma ord2ymd_correct:
  assumes "1 \<le> n" "n \<le> MAXORDINAL"
  shows "toordinal (ord2ymd n) = n \<and>
         new_date (year (ord2ymd n)) (month (ord2ymd n)) (day (ord2ymd n)) = Inr (ord2ymd n)"
proof -
  define a where "a = (n - 1) div 146097"
  define R1 where "R1 = (n - 1) mod 146097"
  define b where "b = R1 div 36524"
  define R2 where "R2 = R1 mod 36524"
  define c where "c = R2 div 1461"
  define R3 where "R3 = R2 mod 1461"
  define e where "e = R3 div 365"
  define r where "r = R3 mod 365"
  have eqs: "n - 1 = 146097 * a + R1" "R1 = 36524 * b + R2" "R2 = 1461 * c + R3" "R3 = 365 * e + r"
    by (simp_all add: a_def R1_def b_def R2_def c_def R3_def e_def r_def)
  have rng: "0 \<le> R1" "R1 < 146097" "0 \<le> R2" "R2 < 36524" "0 \<le> R3" "R3 < 1461" "0 \<le> r" "r < 365"
    by (simp_all add: R1_def R2_def R3_def r_def)
  have n0: "0 \<le> n - 1" "n - 1 \<le> 3652058" using assms by (simp_all add: MAXORDINAL_def)
  have dig: "0 \<le> a" "a \<le> 24" "0 \<le> b" "b \<le> 4" "0 \<le> c" "c \<le> 24" "0 \<le> e" "e \<le> 4"
    using eqs rng n0 by linarith+
  have n_eq: "n = 146097 * a + (36524 * b + (1461 * c + (365 * e + r))) + 1"
    using eqs by simp
  have od: "ord2ymd n =
     (if e = 4 \<or> b = 4 then Date (400 * a + 1 + b * 100 + c * 4 + e - 1) 12 31
      else
        let leapyear = (e = 3 \<and> (c \<noteq> 24 \<or> b = 3));
            m = (r + 50) div 32;
            preceding = DAYS_BEFORE_MONTH ! nat m + (if m > 2 \<and> leapyear then 1 else 0);
            m' = (if preceding > r then m - 1 else m);
            preceding' =
              (if preceding > r
               then preceding - (DAYS_IN_MONTH ! nat m' + (if m' = 2 \<and> leapyear then 1 else 0))
               else preceding)
        in Date (400 * a + 1 + b * 100 + c * 4 + e) m' (r - preceding' + 1))"
    unfolding n_eq
    by (rule ord2ymd_digits) (use eqs rng in simp_all)
  consider (century) "b = 4" | (fourth) "b \<le> 3" "e = 4" | (plain) "b \<le> 3" "e \<le> 3"
    using dig by linarith
  then show ?thesis
  proof cases
    case century
    with eqs rng dig have z: "c = 0" "e = 0" "r = 0" by linarith+
    have D: "ord2ymd n = Date (400 * a + 400) 12 31" using od century z by simp
    have y: "400 * a + 400 = 400 * a + 100 * 3 + 4 * 24 + 3 + 1" by simp
    have dby: "days_before_year (400 * a + 400) = 146097 * a + 36524 * 3 + 1461 * 24 + 365 * 3"
      unfolding y by (rule dby_digits) simp_all
    have lp: "is_leap (400 * a + 400)"
      unfolding y by (subst is_leap_digits) simp_all
    have a23: "a \<le> 23" using n_eq century z assms by (simp add: MAXORDINAL_def)
    have "toordinal (Date (400 * a + 400) 12 31) = n"
      using dby lp n_eq century z
      by (simp add: toordinal_def ymd2ord_def days_before_month_def DAYS_BEFORE_MONTH_def)
    moreover have "new_date (400 * a + 400) 12 31 = Inr (Date (400 * a + 400) 12 31)"
      using a23 dig(1)
      by (simp add: new_date_def c_int_ok_def days_in_month_def DAYS_IN_MONTH_def)
    ultimately show ?thesis by (simp add: D)
  next
    case fourth
    with eqs rng dig have z: "r = 0" "c \<le> 23" by linarith+
    have D: "ord2ymd n = Date (400 * a + 100 * b + 4 * c + 4) 12 31"
      using od fourth z by (simp add: algebra_simps)
    have y: "400 * a + 100 * b + 4 * c + 4 = 400 * a + 100 * b + 4 * c + 3 + 1" by simp
    have dby: "days_before_year (400 * a + 100 * b + 4 * c + 4) =
                 146097 * a + 36524 * b + 1461 * c + 365 * 3"
      unfolding y by (rule dby_digits) (use dig fourth z in simp_all)
    have lp: "is_leap (400 * a + 100 * b + 4 * c + 4)"
      unfolding y by (subst is_leap_digits) (use dig fourth z in simp_all)
    have "toordinal (Date (400 * a + 100 * b + 4 * c + 4) 12 31) = n"
      using dby lp n_eq fourth z
      by (simp add: toordinal_def ymd2ord_def days_before_month_def DAYS_BEFORE_MONTH_def)
    moreover have "new_date (400 * a + 100 * b + 4 * c + 4) 12 31 =
                     Inr (Date (400 * a + 100 * b + 4 * c + 4) 12 31)"
      using dig fourth z
      by (simp add: new_date_def c_int_ok_def days_in_month_def DAYS_IN_MONTH_def)
    ultimately show ?thesis by (simp add: D)
  next
    case plain
    define L where "L = (e = 3 \<and> (c \<noteq> 24 \<or> b = 3))"
    define m where "m = (r + 50) div 32"
    define preceding where
      "preceding = DAYS_BEFORE_MONTH ! nat m + (if m > 2 \<and> L then 1 else 0)"
    define m' where "m' = (if preceding > r then m - 1 else m)"
    define preceding' where "preceding' =
              (if preceding > r
               then preceding - (DAYS_IN_MONTH ! nat m' + (if m' = 2 \<and> L then 1 else 0))
               else preceding)"
    define y where "y = 400 * a + 100 * b + 4 * c + e + 1"
    have D: "ord2ymd n = Date y m' (r - preceding' + 1)"
      using od plain dig
      by (simp add: Let_def L_def m_def preceding_def m'_def preceding'_def y_def algebra_simps)
    have rin: "r \<in> set [0..364]" using rng by simp
    have Lin: "L \<in> set [False, True]" by auto
    have tab0: "1 \<le> m' \<and> m' \<le> 12 \<and>
      preceding' = DAYS_BEFORE_MONTH ! nat m' + (if m' > 2 \<and> L then 1 else 0) \<and>
      1 \<le> r - preceding' + 1 \<and> r - preceding' + 1 \<le> 31 \<and>
      r - preceding' + 1 \<le> (if m' = 2 \<and> L then 29 else DAYS_IN_MONTH ! nat m')"
      unfolding preceding'_def m'_def preceding_def m_def
      by (rule month_day_table[rule_format, OF rin Lin, unfolded Let_def])
    then have tab: "1 \<le> m'" "m' \<le> 12"
      "preceding' = DAYS_BEFORE_MONTH ! nat m' + (if m' > 2 \<and> L then 1 else 0)"
      "1 \<le> r - preceding' + 1"
      "r - preceding' + 1 \<le> (if m' = 2 \<and> L then 29 else DAYS_IN_MONTH ! nat m')"
      "r - preceding' + 1 \<le> 31"
      by blast+
    have dby: "days_before_year y = 146097 * a + 36524 * b + 1461 * c + 365 * e"
      unfolding y_def by (rule dby_digits) (use dig plain in simp_all)
    have lp: "is_leap y \<longleftrightarrow> L"
      unfolding y_def L_def by (rule is_leap_digits) (use dig plain in simp_all)
    have yr: "1 \<le> y" "y \<le> 9999"
    proof -
      show "1 \<le> y" using dig by (simp add: y_def)
      show "y \<le> 9999"
      proof (rule ccontr)
        assume "\<not> y \<le> 9999"
        then have "400 * a + 100 * b + 4 * c + e \<ge> 9999" by (simp add: y_def)
        with dig plain have "a = 24 \<and> b = 3 \<and> c = 24 \<and> e = 3" by linarith
        with n_eq rng assms show False by (simp add: MAXORDINAL_def)
      qed
    qed
    have "toordinal (Date y m' (r - preceding' + 1)) = n"
      using dby lp tab(3) n_eq
      by (simp add: toordinal_def ymd2ord_def days_before_month_def)
    moreover have "new_date y m' (r - preceding' + 1) = Inr (Date y m' (r - preceding' + 1))"
      using yr tab lp rng
      by (auto simp: new_date_def c_int_ok_def days_in_month_def)
    ultimately show ?thesis by (simp add: D)
  qed
qed

lemma day_of_year_table:
  "\<forall>m \<in> set [1..12]. \<forall>L \<in> set [False, True].
     0 \<le> DAYS_BEFORE_MONTH ! nat m + (if m > 2 \<and> L then 1 else 0) \<and>
     DAYS_BEFORE_MONTH ! nat m + (if m > 2 \<and> L then 1 else 0) +
       (if m = 2 \<and> L then 29 else DAYS_IN_MONTH ! nat m) \<le> 365 + (if L then 1 else 0)"
  by code_simp

lemma year_digits:
  fixes y :: int
  obtains a b c e where "y = 400 * a + 100 * b + 4 * c + e + 1"
    "0 \<le> b" "b \<le> 3" "0 \<le> c" "c \<le> 24" "0 \<le> e" "e \<le> 3"
proof -
  define a where "a = (y - 1) div 400"
  define R1 where "R1 = (y - 1) mod 400"
  define b where "b = R1 div 100"
  define R2 where "R2 = R1 mod 100"
  define c where "c = R2 div 4"
  define e where "e = R2 mod 4"
  have eqs: "y - 1 = 400 * a + R1" "R1 = 100 * b + R2" "R2 = 4 * c + e"
    by (simp_all add: a_def R1_def b_def R2_def c_def e_def)
  have rng: "0 \<le> R1" "R1 < 400" "0 \<le> R2" "R2 < 100" "0 \<le> e" "e < 4"
    by (simp_all add: R1_def R2_def e_def)
  have "0 \<le> b" "b \<le> 3" "0 \<le> c" "c \<le> 24" "0 \<le> e" "e \<le> 3"
    using eqs rng by linarith+
  moreover have "y = 400 * a + 100 * b + 4 * c + e + 1" using eqs by simp
  ultimately show ?thesis using that by blast
qed

lemma toordinal_range:
  assumes "new_date y m d = Inr D"
  shows "1 \<le> toordinal D \<and> toordinal D \<le> MAXORDINAL"
proof -
  from assms have v: "1 \<le> y" "y \<le> 9999" "1 \<le> m" "m \<le> 12" "1 \<le> d" "d \<le> days_in_month y m"
    and D: "D = Date y m d"
    by (auto simp: new_date_def split: if_splits)
  obtain a b c e where dg: "y = 400 * a + 100 * b + 4 * c + e + 1"
    "0 \<le> b" "b \<le> 3" "0 \<le> c" "c \<le> 24" "0 \<le> e" "e \<le> 3"
    by (rule year_digits)
  have dby: "days_before_year y = 146097 * a + 36524 * b + 1461 * c + 365 * e"
    unfolding dg(1) by (rule dby_digits) (use dg in simp_all)
  define L where "L = is_leap y"
  have lp: "L \<longleftrightarrow> e = 3 \<and> (c \<noteq> 24 \<or> b = 3)"
    unfolding L_def dg(1) by (rule is_leap_digits) (use dg in simp_all)
  have min: "m \<in> set [1..12]" using v by simp
  have Lin: "L \<in> set [False, True]" by auto
  define pre where "pre = DAYS_BEFORE_MONTH ! nat m + (if m > 2 \<and> L then 1 else 0)"
  define dim where "dim = (if m = 2 \<and> L then 29 else DAYS_IN_MONTH ! nat m)"
  have tab: "0 \<le> pre \<and> pre + dim \<le> 365 + (if L then 1 else 0)"
    unfolding pre_def dim_def by (rule day_of_year_table[rule_format, OF min Lin])
  have dl: "d \<le> dim" using v(6) by (simp add: dim_def days_in_month_def L_def)
  have to: "toordinal D = days_before_year y + pre + d"
    by (simp add: D toordinal_def ymd2ord_def days_before_month_def pre_def L_def)
  have a: "0 \<le> a" "a \<le> 24" using v(1,2) dg by linarith+
  have lo: "1 \<le> toordinal D" using to dby tab v(5) a dg by simp
  have k: "97 * a + 24 * b + c \<le> 2424" using a dg by linarith
  have y1: "400 * a + 100 * b + 4 * c + e \<le> 9998" using v(2) dg(1) by simp
  have hi: "toordinal D \<le> 3652059"
  proof (cases L)
    case True
    with lp have e3: "e = 3" by simp
    with y1 have q: "100 * a + 25 * b + c \<le> 2498" by linarith
    from tab True have "pre + dim \<le> 366" by simp
    with to dby dl e3 q a(1) dg(2) show ?thesis by linarith
  next
    case False
    with tab have "pre + dim \<le> 365" by simp
    with to dby dl y1 k show ?thesis by linarith
  qed
  from lo hi show ?thesis by (simp add: MAXORDINAL_def)
qed

lemma month_day_inverse_table:
  "\<forall>m \<in> set [1..12]. \<forall>d \<in> set [1..31]. \<forall>L \<in> set [False, True].
     d \<le> (if m = 2 \<and> L then 29 else DAYS_IN_MONTH ! nat m) \<longrightarrow>
     (let r = DAYS_BEFORE_MONTH ! nat m + (if m > 2 \<and> L then 1 else 0) + d - 1 in
        0 \<le> r \<and>
        (if r \<le> 364
         then (let m0 = (r + 50) div 32;
                   preceding = DAYS_BEFORE_MONTH ! nat m0 + (if m0 > 2 \<and> L then 1 else 0);
                   m' = (if preceding > r then m0 - 1 else m0);
                   preceding' =
                     (if preceding > r
                      then preceding - (DAYS_IN_MONTH ! nat m' + (if m' = 2 \<and> L then 1 else 0))
                      else preceding)
               in m' = m \<and> r - preceding' + 1 = d)
         else r = 365 \<and> m = 12 \<and> d = 31 \<and> L))"
  by code_simp

lemma fromordinal_toordinal:
  assumes "new_date y m d = Inr D"
  shows "ord2ymd (toordinal D) = D"
proof -
  from assms have v: "1 \<le> y" "y \<le> 9999" "1 \<le> m" "m \<le> 12" "1 \<le> d" "d \<le> days_in_month y m"
    and D: "D = Date y m d"
    by (auto simp: new_date_def split: if_splits)
  obtain a b c e where dg: "y = 400 * a + 100 * b + 4 * c + e + 1"
    "0 \<le> b" "b \<le> 3" "0 \<le> c" "c \<le> 24" "0 \<le> e" "e \<le> 3"
    by (rule year_digits)
  have dby: "days_before_year y = 146097 * a + 36524 * b + 1461 * c + 365 * e"
    unfolding dg(1) by (rule dby_digits) (use dg in simp_all)
  define L where "L = (e = 3 \<and> (c \<noteq> 24 \<or> b = 3))"
  have lp: "is_leap y \<longleftrightarrow> L"
    unfolding L_def dg(1) by (rule is_leap_digits) (use dg in simp_all)
  define r where "r = DAYS_BEFORE_MONTH ! nat m + (if m > 2 \<and> L then 1 else 0) + d - 1"
  have min: "m \<in> set [1..12]" using v by simp
  have Lin: "L \<in> set [False, True]" by auto
  have dimle: "(if m = 2 \<and> L then 29 else DAYS_IN_MONTH ! nat m) \<le> 31"
    using day_of_year_table[rule_format, OF min Lin] min
    by (auto simp: DAYS_IN_MONTH_def DAYS_BEFORE_MONTH_def nth_Cons' split: if_splits)
  have dl: "d \<le> (if m = 2 \<and> L then 29 else DAYS_IN_MONTH ! nat m)"
    using v(6) lp by (simp add: days_in_month_def)
  with dimle v(5) have din: "d \<in> set [1..31]" by simp
  define m0 where "m0 = (r + 50) div 32"
  define preceding where
    "preceding = DAYS_BEFORE_MONTH ! nat m0 + (if m0 > 2 \<and> L then 1 else 0)"
  define m' where "m' = (if preceding > r then m0 - 1 else m0)"
  define preceding' where "preceding' =
            (if preceding > r
             then preceding - (DAYS_IN_MONTH ! nat m' + (if m' = 2 \<and> L then 1 else 0))
             else preceding)"
  have tab: "0 \<le> r \<and> (if r \<le> 364 then m' = m \<and> r - preceding' + 1 = d
                        else r = 365 \<and> m = 12 \<and> d = 31 \<and> L)"
    unfolding preceding'_def m'_def preceding_def m0_def r_def
    by (rule month_day_inverse_table[rule_format, OF min din Lin dl, unfolded Let_def])
  have to: "toordinal D = 146097 * a + (36524 * b + (1461 * c + (365 * e + r))) + 1"
    using dby lp by (simp add: D toordinal_def ymd2ord_def days_before_month_def r_def)
  show ?thesis
  proof (cases "r \<le> 364")
    case True
    with tab have md: "m' = m" "r - preceding' + 1 = d" "0 \<le> r" by auto
    have "ord2ymd (toordinal D) =
            Date (400 * a + 1 + b * 100 + c * 4 + e) m' (r - preceding' + 1)"
      unfolding to
      by (subst ord2ymd_digits)
         (use dg True md(3) in \<open>simp_all add: Let_def L_def m0_def preceding_def m'_def preceding'_def\<close>)
    also have "\<dots> = D" using md dg(1) by (simp add: D)
    finally show ?thesis .
  next
    case False
    with tab have x: "r = 365" "m = 12" "d = 31" "L" by auto
    then have e3: "e = 3" by (simp add: L_def)
    show ?thesis
    proof (cases "c = 24")
      case False
      with dg have c23: "c \<le> 23" by simp
      have N: "146097 * a + (36524 * b + (1461 * c + (365 * e + r))) + 1 =
               146097 * a + (36524 * b + (1461 * c + (365 * 4 + 0))) + 1"
        using x e3 by simp
      have "ord2ymd (toordinal D) = Date (400 * a + 1 + b * 100 + c * 4 + 4 - 1) 12 31"
        unfolding to N by (subst ord2ymd_digits) (use dg c23 in simp_all)
      also have "\<dots> = D" using x e3 dg(1) by (simp add: D)
      finally show ?thesis .
    next
      case True
      with x have b3: "b = 3" by (simp add: L_def)
      have N: "146097 * a + (36524 * b + (1461 * c + (365 * e + r))) + 1 =
               146097 * a + (36524 * 4 + (1461 * 0 + (365 * 0 + 0))) + 1"
        using x e3 True b3 by simp
      have "ord2ymd (toordinal D) = Date (400 * a + 1 + 4 * 100 + 0 * 4 + 0 - 1) 12 31"
        unfolding to N by (subst ord2ymd_digits) simp_all
      also have "\<dots> = D" using x e3 True b3 dg(1) by (simp add: D)
      finally show ?thesis .
    qed
  qed
qed

lemma toordinal_inj:
  assumes "new_date y1 m1 d1 = Inr D1" "new_date y2 m2 d2 = Inr D2" "toordinal D1 = toordinal D2"
  shows "D1 = D2"
  using assms fromordinal_toordinal by metis

lemma new_datetime_valid:
  assumes "new_datetime y m d hh mi ss tz = Inr dt"
  shows "new_date (year (date_part dt)) (month (date_part dt)) (day (date_part dt)) = Inr (date_part dt) \<and>
         0 \<le> hour dt \<and> hour dt \<le> 23 \<and> 0 \<le> minute dt \<and> minute dt \<le> 59 \<and>
         0 \<le> second dt \<and> second dt \<le> 59 \<and> tzinfo dt = tz"
  using assms by (auto simp: new_datetime_def new_date_def split: if_splits)

lemma parsedate_valid:
  assumes "parsedate_to_datetime s = Inr dt"
  shows "new_date (year (date_part dt)) (month (date_part dt)) (day (date_part dt)) = Inr (date_part dt) \<and>
         0 \<le> hour dt \<and> hour dt \<le> 23 \<and> 0 \<le> minute dt \<and> minute dt \<le> 59 \<and>
         0 \<le> second dt \<and> second dt \<le> 59"
proof -
  from assms obtain y m d hh mi ss tz where "new_datetime y m d hh mi ss tz = Inr dt"
    by (auto simp: parsedate_to_datetime_def split: option.splits sum.splits prod.splits)
  from new_datetime_valid[OF this] show ?thesis by simp
qed

text \<open>
  C2 (as amended). For a record whose timestamp \<^verbatim>\<open>parsedate_to_datetime\<close> accepts, take the
  instant it denotes in UTC, in seconds: the ordinal of its date times 86400, plus its
  time of day, minus its offset (0 when the string gives none). When the day of that
  instant is a day of the calendar (ordinal 1 to \<open>MAXORDINAL\<close>, that is 0001-01-01 to
  9999-12-31), the normalization yields the date of that day; otherwise it raises
  \<^verbatim>\<open>OverflowError\<close>. By \<open>fromordinal_toordinal\<close> and \<open>ord2ymd_correct\<close> the dates and the
  ordinals 1 to \<open>MAXORDINAL\<close> correspond one to one. The three strings of the claim
  normalize as it says.
\<close>

theorem utc_calendar_date:
  "(last_modified b = Some s \<and> s \<noteq> [] \<and> parsedate_to_datetime s = Inr dt \<longrightarrow>
     (let off = (case tzinfo dt of None \<Rightarrow> 0 | Some x \<Rightarrow> x);
          inst = toordinal (date_part dt) * 86400 + hour dt * 3600 + minute dt * 60 + second dt - off;
          utc_day = inst div 86400
      in if 1 \<le> utc_day \<and> utc_day \<le> MAXORDINAL
         then blob_modified_date b = Inr (Some (ord2ymd utc_day)) \<and>
              toordinal (ord2ymd utc_day) = utc_day \<and>
              new_date (year (ord2ymd utc_day)) (month (ord2ymd utc_day)) (day (ord2ymd utc_day)) =
                Inr (ord2ymd utc_day)
         else blob_modified_date b = Inl OverflowError)) \<and>
   blob_modified_date ex_noon = Inr (Some (Date 2026 2 11)) \<and>
   blob_modified_date ex_late_est = Inr (Some (Date 2026 2 12)) \<and>
   parsedate_to_datetime ''Tue, 11 Feb 2026 23:30:00'' =
     Inr (Datetime (Date 2026 2 11) 23 30 0 None) \<and>
   blob_modified_date ex_no_zone = Inr (Some (Date 2026 2 11))"
proof (intro conjI impI)
  assume a: "last_modified b = Some s \<and> s \<noteq> [] \<and> parsedate_to_datetime s = Inr dt"
  define off where "off = (case tzinfo dt of None \<Rightarrow> 0 | Some x \<Rightarrow> x)"
  define tod where "tod = hour dt * 3600 + minute dt * 60 + second dt"
  define ord where "ord = toordinal (date_part dt)"
  define utc_day where "utc_day =
    (toordinal (date_part dt) * 86400 + hour dt * 3600 + minute dt * 60 + second dt - off) div 86400"
  have ud: "utc_day = (ord * 86400 + tod - off) div 86400"
    by (simp add: utc_day_def ord_def tod_def add.assoc)
  from a parsedate_valid[of s dt] have
    vd: "new_date (year (date_part dt)) (month (date_part dt)) (day (date_part dt)) = Inr (date_part dt)"
    and tr: "0 \<le> tod" "tod < 86400"
    by (auto simp: tod_def)
  have bm: "blob_modified_date b =
      (case astimezone_utc (Datetime (date_part dt) (hour dt) (minute dt) (second dt) (Some off)) off of
         Inl e \<Rightarrow> Inl e | Inr u \<Rightarrow> Inr (Some (date_part u)))"
    using a by (cases dt) (auto simp: blob_modified_date_def parse_last_modified_def off_def
        astimezone_utc_def Let_def split: option.splits)
  have main: "if 1 \<le> utc_day \<and> utc_day \<le> MAXORDINAL
         then blob_modified_date b = Inr (Some (ord2ymd utc_day)) \<and>
              toordinal (ord2ymd utc_day) = utc_day \<and>
              new_date (year (ord2ymd utc_day)) (month (ord2ymd utc_day)) (day (ord2ymd utc_day)) =
                Inr (ord2ymd utc_day)
         else blob_modified_date b = Inl OverflowError"
  proof (cases "off = 0")
    case True
    have "utc_day = ord" using tr True by (simp add: ud div_pos_pos_trivial)
    moreover have "1 \<le> ord \<and> ord \<le> MAXORDINAL"
      unfolding ord_def by (rule toordinal_range[OF vd])
    moreover have "ord2ymd ord = date_part dt"
      unfolding ord_def by (rule fromordinal_toordinal[OF vd])
    moreover have "blob_modified_date b = Inr (Some (date_part dt))"
      using bm True by (simp add: astimezone_utc_def)
    ultimately show ?thesis using vd by (simp add: ord_def)
  next
    case False
    show ?thesis
    proof (cases "1 \<le> utc_day \<and> utc_day \<le> MAXORDINAL")
      case True
      then have "blob_modified_date b = Inr (Some (ord2ymd utc_day))"
        using bm False
        by (simp add: astimezone_utc_def Let_def utc_day_def)
      with True ord2ymd_correct[of utc_day] show ?thesis by simp
    next
      case F: False
      then have "blob_modified_date b = Inl OverflowError"
        using bm False
        by (auto simp: astimezone_utc_def Let_def utc_day_def)
      with F show ?thesis by simp
    qed
  qed
  then show "let off = (case tzinfo dt of None \<Rightarrow> 0 | Some x \<Rightarrow> x);
          inst = toordinal (date_part dt) * 86400 + hour dt * 3600 + minute dt * 60 + second dt - off;
          utc_day = inst div 86400
      in if 1 \<le> utc_day \<and> utc_day \<le> MAXORDINAL
         then blob_modified_date b = Inr (Some (ord2ymd utc_day)) \<and>
              toordinal (ord2ymd utc_day) = utc_day \<and>
              new_date (year (ord2ymd utc_day)) (month (ord2ymd utc_day)) (day (ord2ymd utc_day)) =
                Inr (ord2ymd utc_day)
         else blob_modified_date b = Inl OverflowError"
    unfolding Let_def utc_day_def off_def .
next
  show "blob_modified_date ex_noon = Inr (Some (Date 2026 2 11))" by code_simp
  show "blob_modified_date ex_late_est = Inr (Some (Date 2026 2 12))" by code_simp
  show "parsedate_to_datetime ''Tue, 11 Feb 2026 23:30:00'' =
     Inr (Datetime (Date 2026 2 11) 23 30 0 None)" by code_simp
  show "blob_modified_date ex_no_zone = Inr (Some (Date 2026 2 11))" by code_simp
qed

theorem utc_calendar_date_witness:
  "last_modified ex_late_est = Some ''Tue, 11 Feb 2026 23:30:00 -0500'' \<and>
   parsedate_to_datetime ''Tue, 11 Feb 2026 23:30:00 -0500'' =
     Inr (Datetime (Date 2026 2 11) 23 30 0 (Some (- 18000))) \<and>
   toordinal (Date 2026 2 11) = 739658 \<and>
   (739658 * 86400 + 23 * 3600 + 30 * 60 + 0 - (- 18000)) div 86400 = (739659 :: int) \<and>
   ord2ymd 739659 = Date 2026 2 12 \<and>
   blob_modified_date ex_late_est = Inr (Some (Date 2026 2 12))"
proof -
  have l: "last_modified ex_late_est = Some ''Tue, 11 Feb 2026 23:30:00 -0500''" by code_simp
  have ne: "''Tue, 11 Feb 2026 23:30:00 -0500'' \<noteq> []" by simp
  have p: "parsedate_to_datetime ''Tue, 11 Feb 2026 23:30:00 -0500'' =
     Inr (Datetime (Date 2026 2 11) 23 30 0 (Some (- 18000)))" by code_simp
  have t: "toordinal (Date 2026 2 11) = 739658" by code_simp
  have d: "(739658 * 86400 + 23 * 3600 + 30 * 60 + 0 - (- 18000)) div 86400 = (739659 :: int)" by simp
  have o: "ord2ymd 739659 = Date 2026 2 12" by code_simp
  from utc_calendar_date [of ex_late_est "''Tue, 11 Feb 2026 23:30:00 -0500''"
      "Datetime (Date 2026 2 11) 23 30 0 (Some (- 18000))"] l ne p
  have "blob_modified_date ex_late_est = Inr (Some (Date 2026 2 12))"
    by (simp add: Let_def t o MAXORDINAL_def)
  with l p t d o show ?thesis by blast
qed

text \<open>
  C2 as stated fails at the end of the calendar: half an hour before midnight of
  9999-12-31 at five hours west of Greenwich is a well-formed timestamp whose UTC date is
  not a date of Python.
\<close>

theorem end_of_calendar_overflows:
  "last_modified ex_last_day = Some ''Fri, 31 Dec 9999 23:30:00 -0500'' \<and>
   parsedate_to_datetime ''Fri, 31 Dec 9999 23:30:00 -0500'' =
     Inr (Datetime (Date 9999 12 31) 23 30 0 (Some (- 18000))) \<and>
   blob_modified_date ex_last_day = Inl OverflowError"
  by code_simp

end
